theory Spec2Isabelle
  imports Complex_Main "HOL-Library.Word" "HOL-Library.Sublist" "HOL-Library.AList"
begin

unbundle bit_operations_syntax

section \<open>JavaScript values used by the server\<close>

text \<open>
  A \<open>Buffer\<close> is a list of bytes. A JavaScript string is a list of characters; the
  model reads one \<open>char\<close> as one code unit, which is exact for the ASCII texts the
  server builds itself (file names, markers, messages).
  A JavaScript number that arrives in a request is any finite number, whole or not
  (the tool schemas say \<open>type: 'number'\<close> and nothing checks for integers), so numbers
  are modelled as rationals with exact arithmetic: \<open>Math.floor\<close> is \<open>floor\<close>,
  \<open>Math.min\<close> and \<open>Math.max\<close> are \<open>min\<close> and \<open>max\<close>, and \<open>Number.isInteger\<close>
  is \<open>is_integer\<close>. The rounding of floating-point arithmetic is not modelled; the
  model is exact on whole numbers below \<open>2\<^sup>5\<^sup>3\<close> and on their halves, which is where
  every property below is evaluated.
\<close>

type_synonym byte = "8 word"

type_synonym number = rat

definition is_integer :: "number \<Rightarrow> bool" where
  "is_integer x = (x = of_int \<lfloor>x\<rfloor>)"

text \<open>
  Anything can be thrown in JavaScript. The handlers only ever look at
  \<open>error instanceof Error ? error.message : 'Unknown error'\<close>, so an exception is
  either an \<open>Error\<close> with its message or some other thrown value.
\<close>

datatype js_exn = JsError string | JsThrown

fun error_message :: "js_exn \<Rightarrow> string" where
  "error_message (JsError m) = m"
| "error_message JsThrown = ''Unknown error''"

subsection \<open>String operations\<close>

text \<open>\<open>String.prototype.includes\<close>: the argument occurs as a contiguous substring.\<close>

fun js_includes :: "string \<Rightarrow> string \<Rightarrow> bool" where
  "js_includes [] sub = (sub = [])"
| "js_includes (c # cs) sub = (prefix sub (c # cs) \<or> js_includes cs sub)"

text \<open>\<open>String.prototype.endsWith\<close>.\<close>

definition js_endsWith :: "string \<Rightarrow> string \<Rightarrow> bool" where
  "js_endsWith s suf = suffix suf s"

text \<open>
  \<open>s.split(sep)\<close> for a one-character separator: every occurrence splits, the result
  is never empty, and \<open>parts[parts.length - 1]\<close> is its last element.
\<close>

fun js_split :: "char \<Rightarrow> string \<Rightarrow> string list" where
  "js_split sep [] = [[]]"
| "js_split sep (c # cs) =
     (if c = sep then [] # js_split sep cs
      else (case js_split sep cs of
              [] \<Rightarrow> [[c]]
            | part # parts \<Rightarrow> (c # part) # parts))"

definition last_part :: "string list \<Rightarrow> string" where
  "last_part parts = (case rev parts of [] \<Rightarrow> [] | p # _ \<Rightarrow> p)"

text \<open>
  \<open>s.replace(pattern, replacement)\<close> with a string pattern replaces the first
  occurrence only.
\<close>

fun js_replace_first :: "string \<Rightarrow> string \<Rightarrow> string \<Rightarrow> string" where
  "js_replace_first pat rep [] = (if pat = [] then rep else [])"
| "js_replace_first pat rep (c # cs) =
     (if prefix pat (c # cs) then rep @ drop (length pat) (c # cs)
      else c # js_replace_first pat rep cs)"

text \<open>A whole number inside a template literal: its decimal digits, with a sign when negative.\<close>

definition digit_char :: "nat \<Rightarrow> char" where
  "digit_char d = ''0123456789'' ! d"

fun digits_of :: "nat \<Rightarrow> string" where
  "digits_of n = (if n < 10 then [] else digits_of (n div 10)) @ [digit_char (n mod 10)]"

declare digits_of.simps [simp del]

definition number_string :: "int \<Rightarrow> string" where
  "number_string i = (if 0 \<le> i then digits_of (nat i) else CHR ''-'' # digits_of (nat (- i)))"

text \<open>\<open>parts.join(sep)\<close>.\<close>

fun js_join :: "string \<Rightarrow> string list \<Rightarrow> string" where
  "js_join sep [] = []"
| "js_join sep [x] = x"
| "js_join sep (x # y # ys) = x @ sep @ js_join sep (y # ys)"

text \<open>Character classes of the regular expressions in the source.\<close>

definition is_alnum :: "char \<Rightarrow> bool" where
  "is_alnum c =
     (let n = (of_char c :: nat)
      in (97 \<le> n \<and> n \<le> 122) \<or> (65 \<le> n \<and> n \<le> 90) \<or> (48 \<le> n \<and> n \<le> 57))"

text \<open>\<open>\w\<close> and \<open>\s\<close> (tab, line feed, vertical tab, form feed, carriage return, space, no-break space).\<close>

definition is_word_char :: "char \<Rightarrow> bool" where
  "is_word_char c = (is_alnum c \<or> c = CHR ''_'')"

definition is_space :: "char \<Rightarrow> bool" where
  "is_space c = ((of_char c :: nat) \<in> {9, 10, 11, 12, 13, 32, 160})"

text \<open>\<open>String.prototype.trim\<close>.\<close>

definition js_trim :: "string \<Rightarrow> string" where
  "js_trim s = rev (dropWhile is_space (rev (dropWhile is_space s)))"

text \<open>\<open>/[^a-zA-Z0-9._-]/g\<close> replaced by \<open>'_'\<close>.\<close>

definition sanitize_char :: "char \<Rightarrow> char" where
  "sanitize_char c =
     (if is_alnum c \<or> c = CHR ''.'' \<or> c = CHR ''_'' \<or> c = CHR ''-'' then c else CHR ''_'')"

text \<open>
  \<open>pdfUrl.match(/arxiv\.org\/pdf\/([^\/]+)/)?.[1]\<close>: the leftmost position where the
  literal \<open>arxiv.org/pdf/\<close> is followed by at least one character other than \<open>/\<close>;
  the group is the longest run of such characters.
\<close>

fun arxiv_id_match :: "string \<Rightarrow> string option" where
  "arxiv_id_match [] = None"
| "arxiv_id_match (c # cs) =
     (let grp = takeWhile (\<lambda>x. x \<noteq> CHR ''/'') (drop (length ''arxiv.org/pdf/'') (c # cs))
      in if prefix ''arxiv.org/pdf/'' (c # cs) \<and> grp \<noteq> [] then Some grp
         else arxiv_id_match cs)"

section \<open>PDF validator\<close>

text \<open>
  \<open>buffer.toString('ascii', start, end)\<close>. Node documents the \<open>'ascii'\<close> encoding as:
  when decoding a Buffer into a string, the highest bit of each byte is unset before
  the byte is decoded as \<open>'latin1'\<close>. So every byte \<open>b\<close> becomes the character with
  code \<open>b AND 0x7F\<close>.
\<close>

definition ascii_slice :: "byte list \<Rightarrow> nat \<Rightarrow> nat \<Rightarrow> string" where
  "ascii_slice buf s e = map (\<lambda>b. char_of (unat (b AND 0x7F))) (take (e - s) (drop s buf))"

text \<open>
  The body of \<open>isValidPDF\<close> once the file has been read:
  \<open>buffer.length >= 4 && buffer.toString('ascii', 0, 4) === '%PDF'\<close>.
\<close>

definition isValidBuffer :: "byte list \<Rightarrow> bool" where
  "isValidBuffer buffer = (length buffer \<ge> 4 \<and> ascii_slice buffer 0 4 = ''%PDF'')"

text \<open>The signature as bytes: the ASCII codes of \<open>%PDF\<close>.\<close>

definition pdf_signature :: "byte list" where
  "pdf_signature = [0x25, 0x50, 0x44, 0x46]"

section \<open>File name derivation in downloadPDF\<close>

text \<open>
  Lines 640 to 663 of the source: the name is derived from the URL when no name was
  given (\<open>!filename\<close> also holds for the empty string), gets the extension
  \<open>.pdf\<close> when it lacks it, and is sanitised. \<open>now\<close> is the value of \<open>Date.now()\<close>.
\<close>

definition falsy_string :: "string option \<Rightarrow> bool" where
  "falsy_string s = (case s of None \<Rightarrow> True | Some v \<Rightarrow> v = [])"

definition baseFilename_of :: "nat \<Rightarrow> string \<Rightarrow> string" where
  "baseFilename_of now pdfUrl =
     (let baseFilename = last_part (js_split (CHR ''/'') pdfUrl)
      in if js_includes baseFilename ''arxiv.org''
         then ''arxiv_'' @ (case arxiv_id_match pdfUrl of Some arxivId \<Rightarrow> arxivId | None \<Rightarrow> ''unknown'')
         else if js_includes baseFilename ''scholar.google''
         then ''scholar_'' @ digits_of now
         else (let stripped = js_replace_first ''.pdf'' [] baseFilename
               in if stripped = [] then ''paper_'' @ digits_of now else stripped))"

definition filename_or_derived :: "nat \<Rightarrow> string \<Rightarrow> string option \<Rightarrow> string" where
  "filename_or_derived now pdfUrl filename =
     (case filename of
        None \<Rightarrow> baseFilename_of now pdfUrl @ ''.pdf''
      | Some f \<Rightarrow> if f = [] then baseFilename_of now pdfUrl @ ''.pdf'' else f)"

definition resolve_filename :: "nat \<Rightarrow> string \<Rightarrow> string option \<Rightarrow> string" where
  "resolve_filename now pdfUrl filename =
     (let f1 = filename_or_derived now pdfUrl filename;
          f2 = (if js_endsWith f1 ''.pdf'' then f1 else f1 @ ''.pdf'')
      in map sanitize_char f2)"

section \<open>External collaborators and the world\<close>

text \<open>
  What \<open>pdfjs-dist\<close> hands back for a loaded document. \<open>getTextContent\<close> yields
  items; only those with a \<open>str\<close> field are text runs, and \<open>transform[5]\<close> is the
  vertical position (absent when the item has no transform). \<open>getPage\<close> followed by
  \<open>getTextContent\<close> may fail for a page, so a page is an exception or its items;
  \<open>numPages\<close> is the number of pages.
\<close>

datatype content_item = TextItem string "number option" | MarkedContent

type_synonym pdf_page = "js_exn + content_item list"

type_synonym pdf_document = "pdf_page list"

text \<open>
  What \<open>xml2js\<close> hands back for an arXiv API answer, as far as \<open>findPaperOnArxiv\<close>
  reads it: \<open>feed.entry\<close> may be absent; an entry has a list of links, each with
  a \<open>type\<close> and a \<open>href\<close> attribute; an entry without a \<open>link\<close> array makes the
  lookup throw.
\<close>

record arxiv_link =
  link_type :: string
  href :: string

type_synonym arxiv_entry = "arxiv_link list option"

type_synonym arxiv_feed = "arxiv_entry list option"

text \<open>The object literals passed to \<open>JSON.stringify\<close>.\<close>

datatype json =
    JNull
  | JBool bool
  | JNum number
  | JStr string
  | JArr "json list"
  | JObj "(string \<times> json) list"

text \<open>Papers as the search clients return them (the fields the handler copies).\<close>

record arxiv_paper =
  ap_title :: string
  ap_authors :: "string list"
  ap_abstract :: string
  ap_published :: string
  ap_categories :: "string list"
  ap_pdfUrl :: string
  ap_htmlUrl :: string

record scholar_paper =
  sp_title :: string
  sp_authors :: "string list"
  sp_abstract :: string
  sp_year :: string
  sp_venue :: string
  sp_citedBy :: number
  sp_url :: string
  sp_pdfUrl :: "string option"

text \<open>
  Every network request is logged in the world; the answer to a request may depend on
  how many requests were made before it, so the network need not answer the same
  URL twice in the same way.
\<close>

datatype net_request = HttpGet string | ArxivQuery string

text \<open>
  The environment: the platform and the libraries the server calls.
  \<^item> \<open>downloadsDir\<close>: \<open>path.join(os.tmpdir(), 'science_mcp_downloads')\<close>;
  \<^item> \<open>date_now k\<close>: \<open>Date.now()\<close> read after \<open>k\<close> network requests;
  \<^item> \<open>http_get k url\<close>: \<open>axios.get(url, {responseType: 'arraybuffer', ...})\<close> as
    request number \<open>k\<close>: an exception or the body;
  \<^item> \<open>arxiv_api k query\<close>: the arXiv API request for \<open>search_query = query\<close> followed
    by \<open>parseXML\<close>;
  \<^item> \<open>url_title_param url\<close>: the \<open>try\<close> block of \<open>extractTitleFromUrl\<close>,
    that is \<open>new URL(url)\<close>, the first of the parameters \<open>title\<close>, \<open>q\<close>, \<open>query\<close>
    that is set, decoded; \<open>None\<close> when parsing or decoding throws or none is set;
  \<^item> \<open>getDocument\<close>: loading a PDF from its bytes with \<open>pdfjs-dist\<close>;
  \<^item> \<open>json_stringify v\<close>: \<open>JSON.stringify(v, null, 2)\<close>;
  \<^item> \<open>fraction_string x\<close>: the text of a number that is not whole inside a
    template literal (its shortest decimal expansion);
  \<^item> \<open>arxiv_searchPapers\<close>, \<open>scholar_searchPapers\<close>: the two search clients, called
    with the query, the number of results and the sort order. (The Semantic Scholar
    client catches its own errors and returns the empty list; the model lets either
    client throw.)
\<close>

record env =
  downloadsDir :: string
  date_now :: "nat \<Rightarrow> nat"
  http_get :: "nat \<Rightarrow> string \<Rightarrow> js_exn + byte list"
  arxiv_api :: "nat \<Rightarrow> string \<Rightarrow> js_exn + arxiv_feed"
  url_title_param :: "string \<Rightarrow> string option"
  getDocument :: "byte list \<Rightarrow> js_exn + pdf_document"
  json_stringify :: "json \<Rightarrow> string"
  fraction_string :: "number \<Rightarrow> string"
  arxiv_searchPapers :: "string \<Rightarrow> number \<Rightarrow> string \<Rightarrow> js_exn + arxiv_paper list"
  scholar_searchPapers :: "string \<Rightarrow> number \<Rightarrow> string \<Rightarrow> js_exn + scholar_paper list"

text \<open>
  The world: the storage directory (\<open>None\<close> when it is missing, so that reading it
  throws), as its entries in listing order with their contents; the regular files
  elsewhere, by path; and the log of network requests. The entries of the storage
  directory are regular files: the server itself never creates anything else there.
\<close>

record world =
  storage :: "(string \<times> byte list) list option"
  elsewhere :: "string \<Rightarrow> byte list option"
  net_log :: "net_request list"

section \<open>File system\<close>

text \<open>
  \<open>path.join(dir, name)\<close> for the normalised directory and a plain entry name.
\<close>

definition path_join :: "string \<Rightarrow> string \<Rightarrow> string" where
  "path_join dir name = dir @ ''/'' @ name"

text \<open>A path names an entry of the storage directory when it is the directory, a slash and a plain name.\<close>

definition plain_name :: "string \<Rightarrow> bool" where
  "plain_name name = (name \<noteq> [] \<and> CHR ''/'' \<notin> set name)"

definition storage_name :: "env \<Rightarrow> string \<Rightarrow> string option" where
  "storage_name env p =
     (let pre = downloadsDir env @ ''/''; name = drop (length pre) p
      in if prefix pre p \<and> plain_name name then Some name else None)"

definition file_at :: "env \<Rightarrow> world \<Rightarrow> string \<Rightarrow> byte list option" where
  "file_at env w p =
     (case storage_name env p of
        Some name \<Rightarrow> (case storage w of None \<Rightarrow> None | Some entries \<Rightarrow> map_of entries name)
      | None \<Rightarrow> elsewhere w p)"

definition enoent :: "string \<Rightarrow> string \<Rightarrow> js_exn" where
  "enoent syscall p = JsError (''ENOENT: no such file or directory, '' @ syscall @ '' '' @ p)"

definition existsSync :: "env \<Rightarrow> world \<Rightarrow> string \<Rightarrow> bool" where
  "existsSync env w p = (file_at env w p \<noteq> None)"

definition readFileSync :: "env \<Rightarrow> world \<Rightarrow> string \<Rightarrow> js_exn + byte list" where
  "readFileSync env w p =
     (case file_at env w p of None \<Rightarrow> Inl (enoent ''open'' p) | Some buffer \<Rightarrow> Inr buffer)"

text \<open>Writing creates or replaces the file; it throws when the directory is missing.\<close>

definition writeFileSync :: "env \<Rightarrow> world \<Rightarrow> string \<Rightarrow> byte list \<Rightarrow> js_exn + world" where
  "writeFileSync env w p data =
     (case storage_name env p of
        Some name \<Rightarrow>
          (case storage w of
             None \<Rightarrow> Inl (enoent ''open'' p)
           | Some entries \<Rightarrow> Inr (w\<lparr>storage := Some (AList.update name data entries)\<rparr>))
      | None \<Rightarrow> Inr (w\<lparr>elsewhere := (elsewhere w)(p \<mapsto> data)\<rparr>))"

definition unlinkSync :: "env \<Rightarrow> world \<Rightarrow> string \<Rightarrow> js_exn + world" where
  "unlinkSync env w p =
     (case file_at env w p of
        None \<Rightarrow> Inl (enoent ''unlink'' p)
      | Some _ \<Rightarrow>
          (case storage_name env p of
             Some name \<Rightarrow>
               Inr (w\<lparr>storage := map_option (AList.delete name) (storage w)\<rparr>)
           | None \<Rightarrow> Inr (w\<lparr>elsewhere := (elsewhere w)(p := None)\<rparr>)))"

text \<open>\<open>fs.readdirSync(this.downloadsDir)\<close>.\<close>

definition readdirSync :: "env \<Rightarrow> world \<Rightarrow> js_exn + string list" where
  "readdirSync env w =
     (case storage w of
        None \<Rightarrow> Inl (enoent ''scandir'' (downloadsDir env))
      | Some entries \<Rightarrow> Inr (map fst entries))"

text \<open>The names and the contents of the files of the storage directory.\<close>

definition storage_files :: "world \<Rightarrow> (string \<times> byte list) list" where
  "storage_files w = (case storage w of None \<Rightarrow> [] | Some entries \<Rightarrow> entries)"

text \<open>
  A directory listing never holds a name twice, and its names are plain (not empty,
  no slash).
\<close>

definition wf_storage :: "world \<Rightarrow> bool" where
  "wf_storage w =
     (distinct (map fst (storage_files w)) \<and> list_all plain_name (map fst (storage_files w)))"

section \<open>PDFUtils: validation, listing, cleanup\<close>

definition isValidPDF :: "env \<Rightarrow> world \<Rightarrow> string \<Rightarrow> bool" where
  "isValidPDF env w filepath =
     (case readFileSync env w filepath of
        Inl e \<Rightarrow> False
      | Inr buffer \<Rightarrow> isValidBuffer buffer)"

definition listDownloadedPDFs :: "env \<Rightarrow> world \<Rightarrow> string list" where
  "listDownloadedPDFs env w =
     (case readdirSync env w of
        Inl e \<Rightarrow> []
      | Inr files \<Rightarrow>
          map (\<lambda>file. path_join (downloadsDir env) file)
            (filter (\<lambda>file. js_endsWith file ''.pdf'') files))"

text \<open>
  \<open>files.forEach(file => fs.unlinkSync(path.join(dir, file)))\<close> inside the
  \<open>try\<close>: the first failing unlink ends the loop, and what was deleted before stays
  deleted.
\<close>

fun unlink_each :: "env \<Rightarrow> string list \<Rightarrow> world \<Rightarrow> js_exn option \<times> world" where
  "unlink_each env [] w = (None, w)"
| "unlink_each env (file # files) w =
     (case unlinkSync env w (path_join (downloadsDir env) file) of
        Inl e \<Rightarrow> (Some e, w)
      | Inr w' \<Rightarrow> unlink_each env files w')"

definition cleanupDownloads :: "env \<Rightarrow> world \<Rightarrow> world" where
  "cleanupDownloads env w =
     (case readdirSync env w of
        Inl e \<Rightarrow> w
      | Inr files \<Rightarrow> snd (unlink_each env files w))"

section \<open>PDFUtils: download\<close>

definition paywalledDomains :: "string list" where
  "paywalledDomains =
     [''scholar.google.com'', ''sciencedirect.com'', ''ieee.org'', ''acm.org'', ''springer.com'',
      ''wiley.com'', ''tandfonline.com'', ''sagepub.com'', ''taylorfrancis.com'', ''emerald.com'',
      ''jstor.org'']"

definition isPaywalledSource :: "string \<Rightarrow> bool" where
  "isPaywalledSource url = list_ex (\<lambda>domain. js_includes url domain) paywalledDomains"

text \<open>\<open>.replace(/[_-]/g, ' ')\<close> and \<open>.replace(/\.pdf$/, '')\<close>.\<close>

definition dash_to_space :: "char \<Rightarrow> char" where
  "dash_to_space c = (if c = CHR ''_'' \<or> c = CHR ''-'' then CHR '' '' else c)"

definition strip_pdf_suffix :: "string \<Rightarrow> string" where
  "strip_pdf_suffix s = (if js_endsWith s ''.pdf'' then take (length s - 4) s else s)"

definition extractTitleFromUrl :: "env \<Rightarrow> string \<Rightarrow> string option \<Rightarrow> string option" where
  "extractTitleFromUrl env url filename =
     (let fromFilename =
            (if falsy_string filename then None
             else (let cleanFilename = map dash_to_space (strip_pdf_suffix (the filename))
                   in if length cleanFilename > 10 then Some cleanFilename else None))
      in case fromFilename of
           Some title \<Rightarrow> Some title
         | None \<Rightarrow>
             (case url_title_param env url of
                Some title \<Rightarrow> Some title
              | None \<Rightarrow>
                  (let lastPart = last_part (js_split (CHR ''/'') url)
                   in if lastPart \<noteq> [] \<and> length lastPart > 10 \<and> \<not> js_includes lastPart ''.''
                      then Some (map dash_to_space lastPart)
                      else None)))"

text \<open>
  \<open>entries[0].link.find(link => link.$.type === 'application/pdf')?.$.href || null\<close>
  after \<open>entries.length > 0\<close>; an entry without links makes \<open>.find\<close> throw.
\<close>

definition first_pdf_href :: "arxiv_entry list \<Rightarrow> js_exn + string option" where
  "first_pdf_href entries =
     (case entries of
        [] \<Rightarrow> Inr None
      | entry # _ \<Rightarrow>
          (case entry of
             None \<Rightarrow> Inl (JsError ''Cannot read properties of undefined'')
           | Some links \<Rightarrow>
               (case find (\<lambda>l. link_type l = ''application/pdf'') links of
                  None \<Rightarrow> Inr None
                | Some l \<Rightarrow> Inr (if href l = [] then None else Some (href l)))))"

definition href_or_null :: "js_exn + string option \<Rightarrow> string option" where
  "href_or_null r = (case r of Inl e \<Rightarrow> None | Inr h \<Rightarrow> h)"

text \<open>
  \<open>findPaperOnArxiv\<close>: the quoted title query, then, when the feed has no entry, the
  query with punctuation replaced by spaces; every exception gives \<open>null\<close>.
\<close>

definition findPaperOnArxiv :: "env \<Rightarrow> world \<Rightarrow> string \<Rightarrow> string option \<times> world" where
  "findPaperOnArxiv env w title =
     (let searchQuery = ''ti:'' @ [CHR 0x22] @ title @ [CHR 0x22];
          w1 = w\<lparr>net_log := net_log w @ [ArxivQuery searchQuery]\<rparr>
      in case arxiv_api env (length (net_log w)) searchQuery of
           Inl e \<Rightarrow> (None, w1)
         | Inr (Some entries) \<Rightarrow> (href_or_null (first_pdf_href entries), w1)
         | Inr None \<Rightarrow>
             (let fallbackQuery =
                    js_trim (map (\<lambda>c. if is_word_char c \<or> is_space c then c else CHR '' '') title);
                  w2 = w1\<lparr>net_log := net_log w1 @ [ArxivQuery fallbackQuery]\<rparr>
              in case arxiv_api env (length (net_log w1)) fallbackQuery of
                   Inl e \<Rightarrow> (None, w2)
                 | Inr None \<Rightarrow> (None, w2)
                 | Inr (Some entries) \<Rightarrow> (href_or_null (first_pdf_href entries), w2)))"

text \<open>
  The \<open>try\<close> block of \<open>downloadPDF\<close>: fetch, derive the name, write, validate, and
  delete the file when it is not valid. The result carries the value of the variable
  \<open>filename\<close> at the end of the block, which the \<open>catch\<close> block reads.
\<close>

definition download_attempt ::
  "env \<Rightarrow> world \<Rightarrow> string \<Rightarrow> string option \<Rightarrow> (js_exn + string) \<times> string option \<times> world" where
  "download_attempt env w pdfUrl filename =
     (let w1 = w\<lparr>net_log := net_log w @ [HttpGet pdfUrl]\<rparr>
      in case http_get env (length (net_log w)) pdfUrl of
           Inl e \<Rightarrow> (Inl e, filename, w1)
         | Inr data \<Rightarrow>
             (let fname = resolve_filename (date_now env (length (net_log w1))) pdfUrl filename;
                  filepath = path_join (downloadsDir env) fname
              in case writeFileSync env w1 filepath data of
                   Inl e \<Rightarrow> (Inl e, Some fname, w1)
                 | Inr w2 \<Rightarrow>
                     if \<not> isValidPDF env w2 filepath
                     then (case unlinkSync env w2 filepath of
                             Inl e \<Rightarrow> (Inl e, Some fname, w2)
                           | Inr w3 \<Rightarrow>
                               (Inl (JsError ''Downloaded file is not a valid PDF''), Some fname, w3))
                     else (Inr filepath, Some fname, w2)))"

text \<open>
  \<open>downloadPDF\<close> with its \<open>catch\<close> block: one recovery through arXiv when the call
  is not itself a retry and the URL looks paywalled. A failing retry is caught
  (\<open>return await\<close> inside \<open>try\<close>) and the first error is reported.
\<close>

function downloadPDF ::
  "env \<Rightarrow> world \<Rightarrow> string \<Rightarrow> string option \<Rightarrow> bool \<Rightarrow> (js_exn + string) \<times> world" where
  "downloadPDF env w pdfUrl filename isRetry =
     (case download_attempt env w pdfUrl filename of
        (Inr filepath, filename', w') \<Rightarrow> (Inr filepath, w')
      | (Inl error, filename', w') \<Rightarrow>
          (let failure = Inl (JsError (''Failed to download PDF: '' @ error_message error))
           in if \<not> isRetry \<and> isPaywalledSource pdfUrl
              then (case extractTitleFromUrl env pdfUrl filename' of
                      None \<Rightarrow> (failure, w')
                    | Some paperTitle \<Rightarrow>
                        if paperTitle = [] then (failure, w')
                        else (case findPaperOnArxiv env w' paperTitle of
                                (None, w'') \<Rightarrow> (failure, w'')
                              | (Some arxivPdfUrl, w'') \<Rightarrow>
                                  (case downloadPDF env w'' arxivPdfUrl filename' True of
                                     (Inr filepath, w3) \<Rightarrow> (Inr filepath, w3)
                                   | (Inl arxivError, w3) \<Rightarrow> (failure, w3))))
              else (failure, w')))"
  by pat_completeness auto
termination
  by (relation "measure (\<lambda>(env, w, pdfUrl, filename, isRetry). if isRetry then 0 else 1)") auto

declare downloadPDF.simps [simp del]

section \<open>PDFUtils: reading\<close>

text \<open>
  The inner loop over \<open>textContent.items\<close>: a line feed is pushed before a run whose
  vertical position differs from the previous run's by more than 5.
\<close>

fun collect_items :: "content_item list \<Rightarrow> number option \<Rightarrow> string list" where
  "collect_items [] lastY = []"
| "collect_items (MarkedContent # items) lastY = collect_items items lastY"
| "collect_items (TextItem text transform # items) lastY =
     (let y = (case transform of None \<Rightarrow> 0 | Some v \<Rightarrow> v)
      in (case lastY of
            None \<Rightarrow> []
          | Some l \<Rightarrow> if \<bar>y - l\<bar> > 5 then [[CHR 0x0A]] else [])
         @ [text] @ collect_items items (Some y))"

text \<open>
  \<open>pdfDocument.getPage(n)\<close> then \<open>page.getTextContent()\<close>; pdfjs rejects a page
  number that is not a whole number from 1 to \<open>numPages\<close>.
\<close>

definition getPage :: "pdf_document \<Rightarrow> number \<Rightarrow> js_exn + content_item list" where
  "getPage doc pageNum =
     (if is_integer pageNum \<and> 1 \<le> pageNum \<and> pageNum \<le> of_nat (length doc)
      then doc ! nat (\<lfloor>pageNum\<rfloor> - 1)
      else Inl (JsError ''Invalid page request.''))"

text \<open>The text pushed for one page; the page number is whole, since \<open>getPage\<close> accepted it.\<close>

definition page_block :: "int \<Rightarrow> content_item list \<Rightarrow> string" where
  "page_block pageNum items =
     ''--- Page '' @ number_string pageNum @ '' ---'' @ [CHR 0x0A] @ js_join '' '' (collect_items items None)"

text \<open>\<open>for (let pageNum = start; pageNum <= Math.min(end, totalPages); pageNum++)\<close>.\<close>

function read_pages :: "pdf_document \<Rightarrow> number \<Rightarrow> number \<Rightarrow> string list \<Rightarrow> js_exn + string list" where
  "read_pages doc pageNum limit textParts =
     (if pageNum \<le> limit
      then (case getPage doc pageNum of
              Inl e \<Rightarrow> Inl e
            | Inr items \<Rightarrow>
                read_pages doc (pageNum + 1) limit (textParts @ [page_block \<lfloor>pageNum\<rfloor> items]))
      else Inr textParts)"
  by pat_completeness auto
termination
proof (relation "measure (\<lambda>(doc, pageNum, limit, textParts). nat \<lfloor>limit + 1 - pageNum\<rfloor>)")
  show "wf (measure (\<lambda>(doc, pageNum, limit, textParts). nat \<lfloor>limit + 1 - pageNum\<rfloor>))" by simp
next
  fix doc :: pdf_document and pageNum limit :: number and textParts :: "string list"
    and items :: "content_item list"
  assume le: "pageNum \<le> limit"
  have "limit + 1 - (pageNum + 1) = (limit + 1 - pageNum) - 1" by simp
  then have "\<lfloor>limit + 1 - (pageNum + 1)\<rfloor> = \<lfloor>(limit + 1 - pageNum) - 1\<rfloor>" by (rule arg_cong)
  also have "\<dots> = \<lfloor>limit + 1 - pageNum\<rfloor> - 1" by (rule floor_diff_one)
  finally have "\<lfloor>limit + 1 - (pageNum + 1)\<rfloor> = \<lfloor>limit + 1 - pageNum\<rfloor> - 1" .
  moreover have "1 \<le> \<lfloor>limit + 1 - pageNum\<rfloor>" using le by (simp add: le_floor_iff)
  ultimately show "((doc, pageNum + 1, limit, textParts @ [page_block \<lfloor>pageNum\<rfloor> items]),
                    (doc, pageNum, limit, textParts))
                   \<in> measure (\<lambda>(doc, pageNum, limit, textParts). nat \<lfloor>limit + 1 - pageNum\<rfloor>)"
    by simp
qed

declare read_pages.simps [simp del]

text \<open>\<open>x || d\<close> for an optional number: \<open>undefined\<close> and \<open>0\<close> are falsy.\<close>

definition or_default :: "number option \<Rightarrow> number \<Rightarrow> number" where
  "or_default x d = (case x of None \<Rightarrow> d | Some v \<Rightarrow> if v = 0 then d else v)"

text \<open>Opening a PDF: the existence check, the read and the load, as the three readers do it.\<close>

definition open_pdf :: "env \<Rightarrow> world \<Rightarrow> string \<Rightarrow> js_exn + pdf_document" where
  "open_pdf env w filepath =
     (if \<not> existsSync env w filepath then Inl (JsError (''PDF file not found: '' @ filepath))
      else (case readFileSync env w filepath of
              Inl e \<Rightarrow> Inl e
            | Inr data \<Rightarrow> getDocument env data))"

definition readPDFText ::
  "env \<Rightarrow> world \<Rightarrow> string \<Rightarrow> number option \<Rightarrow> number option \<Rightarrow> js_exn + string" where
  "readPDFText env w filepath startPage endPage =
     (case (case open_pdf env w filepath of
              Inl e \<Rightarrow> Inl e
            | Inr pdfDocument \<Rightarrow>
                (let totalPages = of_nat (length pdfDocument);
                     start = or_default startPage 1;
                     end = or_default endPage totalPages
                 in case read_pages pdfDocument start (min end totalPages) [] of
                      Inl e \<Rightarrow> Inl e
                    | Inr textParts \<Rightarrow> Inr (js_join [CHR 0x0A, CHR 0x0A] textParts)))
      of Inl error \<Rightarrow> Inl (JsError (''Failed to read PDF: '' @ error_message error))
       | Inr text \<Rightarrow> Inr text)"

text \<open>
  The chunk loop of \<open>readPDFTextChunked\<close>:
  \<open>for (let startPage = 1; startPage <= totalPages; startPage += chunkSize)\<close>. With a
  chunk size of 0 or less the loop does not end; not returning is the value \<open>None\<close>.
\<close>

partial_function (option) chunk_loop ::
  "env \<Rightarrow> world \<Rightarrow> string \<Rightarrow> number \<Rightarrow> number \<Rightarrow> number \<Rightarrow> string list
     \<Rightarrow> (js_exn + string list) option" where
  "chunk_loop env w filepath totalPages chunkSize startPage chunks =
     (if startPage \<le> totalPages
      then (let endPage = min (startPage + chunkSize - 1) totalPages
            in case readPDFText env w filepath (Some startPage) (Some endPage) of
                 Inl e \<Rightarrow> Some (Inl e)
               | Inr chunkText \<Rightarrow>
                   chunk_loop env w filepath totalPages chunkSize (startPage + chunkSize)
                     (chunks @ [chunkText]))
      else Some (Inr chunks))"

declare chunk_loop.simps [code]

definition readPDFTextChunked ::
  "env \<Rightarrow> world \<Rightarrow> string \<Rightarrow> number \<Rightarrow> (js_exn + string list \<times> number) option" where
  "readPDFTextChunked env w filepath chunkSize =
     (case (case open_pdf env w filepath of
              Inl e \<Rightarrow> Some (Inl e)
            | Inr pdfDocument \<Rightarrow>
                (let totalPages = of_nat (length pdfDocument)
                 in if totalPages = 0 then Some (Inl (JsError ''Could not determine PDF page count''))
                    else (case chunk_loop env w filepath totalPages chunkSize 1 [] of
                            None \<Rightarrow> None
                          | Some (Inl e) \<Rightarrow> Some (Inl e)
                          | Some (Inr chunks) \<Rightarrow> Some (Inr (chunks, totalPages)))))
      of None \<Rightarrow> None
       | Some (Inl error) \<Rightarrow>
           Some (Inl (JsError (''Failed to read PDF in chunks: '' @ error_message error)))
       | Some (Inr result) \<Rightarrow> Some (Inr result))"

definition getPDFPageCount :: "env \<Rightarrow> world \<Rightarrow> string \<Rightarrow> js_exn + number" where
  "getPDFPageCount env w filepath =
     (case open_pdf env w filepath of
        Inl error \<Rightarrow> Inl (JsError (''Failed to get PDF page count: '' @ error_message error))
      | Inr pdfDocument \<Rightarrow> Inr (of_nat (length pdfDocument)))"

section \<open>The tool-call handler\<close>

text \<open>
  The request: the tool name and its arguments. The arguments are typed as the
  handler casts them (\<open>args as {...}\<close>): the arguments a tool requires are present,
  the others are optional; a tool ignores the arguments of the other tools. A
  numeric argument is any number.
\<close>

record tool_args =
  arg_category :: string
  arg_query :: string
  arg_pdfUrl :: string
  arg_filepath :: string
  arg_maxResults :: "number option"
  arg_sortBy :: "string option"
  arg_filename :: "string option"
  arg_startPage :: "number option"
  arg_endPage :: "number option"
  arg_chunked :: "bool option"
  arg_chunkSize :: "number option"

text \<open>
  The response: its \<open>content\<close>, a list of text items, and \<open>isError\<close> (absent on
  success).
\<close>

record tool_response =
  content :: "string list"
  isError :: bool

text \<open>A destructuring default, \<open>x = d\<close>: used when the argument is \<open>undefined\<close>.\<close>

definition with_default :: "'a option \<Rightarrow> 'a \<Rightarrow> 'a" where
  "with_default x d = (case x of None \<Rightarrow> d | Some v \<Rightarrow> v)"

definition arxiv_paper_json :: "arxiv_paper \<Rightarrow> json" where
  "arxiv_paper_json paper =
     JObj [(''title'', JStr (ap_title paper)),
           (''authors'', JArr (map JStr (ap_authors paper))),
           (''abstract'', JStr (ap_abstract paper)),
           (''published'', JStr (ap_published paper)),
           (''categories'', JArr (map JStr (ap_categories paper))),
           (''pdfUrl'', JStr (ap_pdfUrl paper)),
           (''htmlUrl'', JStr (ap_htmlUrl paper))]"

text \<open>A property whose value is \<open>undefined\<close> is left out by \<open>JSON.stringify\<close>.\<close>

definition scholar_paper_json :: "scholar_paper \<Rightarrow> json" where
  "scholar_paper_json paper =
     JObj ([(''title'', JStr (sp_title paper)),
            (''authors'', JArr (map JStr (sp_authors paper))),
            (''abstract'', JStr (sp_abstract paper)),
            (''year'', JStr (sp_year paper)),
            (''venue'', JStr (sp_venue paper)),
            (''citedBy'', JNum (sp_citedBy paper)),
            (''url'', JStr (sp_url paper))]
           @ (case sp_pdfUrl paper of None \<Rightarrow> [] | Some u \<Rightarrow> [(''pdfUrl'', JStr u)]))"

definition search_arxiv_by_category :: "env \<Rightarrow> tool_args \<Rightarrow> js_exn + string" where
  "search_arxiv_by_category env args =
     (let category = arg_category args;
          maxResults = with_default (arg_maxResults args) 10;
          sortBy = with_default (arg_sortBy args) ''submittedDate'';
          query = ''cat:'' @ category
      in case arxiv_searchPapers env query maxResults sortBy of
           Inl e \<Rightarrow> Inl e
         | Inr results \<Rightarrow>
             Inr (json_stringify env
                    (JObj [(''source'', JStr ''ArXiv''), (''category'', JStr category),
                           (''results'', JArr (map arxiv_paper_json results))])))"

definition search_arxiv :: "env \<Rightarrow> tool_args \<Rightarrow> js_exn + string" where
  "search_arxiv env args =
     (let query = arg_query args;
          maxResults = with_default (arg_maxResults args) 10;
          sortBy = with_default (arg_sortBy args) ''relevance''
      in case arxiv_searchPapers env query maxResults sortBy of
           Inl e \<Rightarrow> Inl e
         | Inr results \<Rightarrow>
             Inr (json_stringify env
                    (JObj [(''source'', JStr ''ArXiv''), (''query'', JStr query),
                           (''results'', JArr (map arxiv_paper_json results))])))"

definition search_google_scholar :: "env \<Rightarrow> tool_args \<Rightarrow> js_exn + string" where
  "search_google_scholar env args =
     (let query = arg_query args;
          maxResults = with_default (arg_maxResults args) 10;
          sortBy = with_default (arg_sortBy args) ''relevance''
      in case scholar_searchPapers env query maxResults sortBy of
           Inl e \<Rightarrow> Inl e
         | Inr results \<Rightarrow>
             Inr (json_stringify env
                    (JObj [(''source'', JStr ''Google Scholar''), (''query'', JStr query),
                           (''results'', JArr (map scholar_paper_json results))])))"

text \<open>
  \<open>Promise.all\<close> of the two searches: it rejects when one of them does. When both
  do, the model reports the arXiv client's exception.
\<close>

definition search_both_sources :: "env \<Rightarrow> tool_args \<Rightarrow> js_exn + string" where
  "search_both_sources env args =
     (let query = arg_query args;
          maxResults = with_default (arg_maxResults args) 10;
          sortBy = with_default (arg_sortBy args) ''relevance'';
          arxivSortBy = (if sortBy = ''date'' then ''submittedDate'' else ''relevance'')
      in case arxiv_searchPapers env query maxResults arxivSortBy of
           Inl e \<Rightarrow> Inl e
         | Inr arxivResults \<Rightarrow>
             (case scholar_searchPapers env query maxResults sortBy of
                Inl e \<Rightarrow> Inl e
              | Inr scholarResults \<Rightarrow>
                  Inr (json_stringify env
                         (JObj [(''query'', JStr query),
                                (''sources'',
                                 JObj [(''arxiv'',
                                        JObj [(''count'', JNum (of_nat (length arxivResults))),
                                              (''results'', JArr (map arxiv_paper_json arxivResults))]),
                                       (''scholar'',
                                        JObj [(''count'', JNum (of_nat (length scholarResults))),
                                              (''results'', JArr (map scholar_paper_json scholarResults))])])]))))"

definition download_pdf :: "env \<Rightarrow> world \<Rightarrow> tool_args \<Rightarrow> (js_exn + string) \<times> world" where
  "download_pdf env w args =
     (let pdfUrl = arg_pdfUrl args
      in case downloadPDF env w pdfUrl (arg_filename args) False of
           (Inl e, w') \<Rightarrow> (Inl e, w')
         | (Inr filepath, w') \<Rightarrow>
             (Inr (json_stringify env
                     (JObj [(''action'', JStr ''download_pdf''), (''pdfUrl'', JStr pdfUrl),
                            (''filepath'', JStr filepath),
                            (''message'', JStr ''PDF downloaded successfully'')])), w'))"

text \<open>
  The page range the handler attaches to chunk number \<open>index\<close>:
  \<open>startPage: index * currentChunkSize + 1\<close> and
  \<open>endPage: Math.min((index + 1) * currentChunkSize, result.totalPages)\<close>.
\<close>

definition chunk_startPage :: "number \<Rightarrow> nat \<Rightarrow> number" where
  "chunk_startPage currentChunkSize index = of_nat index * currentChunkSize + 1"

definition chunk_endPage :: "number \<Rightarrow> number \<Rightarrow> nat \<Rightarrow> number" where
  "chunk_endPage currentChunkSize totalPages index =
     min ((of_nat index + 1) * currentChunkSize) totalPages"

definition chunk_json :: "number \<Rightarrow> number \<Rightarrow> nat \<times> string \<Rightarrow> json" where
  "chunk_json currentChunkSize totalPages ic =
     JObj [(''chunkIndex'', JNum (of_nat (fst ic))),
           (''startPage'', JNum (chunk_startPage currentChunkSize (fst ic))),
           (''endPage'', JNum (chunk_endPage currentChunkSize totalPages (fst ic))),
           (''text'', JStr (snd ic))]"

definition chunked_response :: "string \<Rightarrow> number \<Rightarrow> number \<Rightarrow> string list \<Rightarrow> json" where
  "chunked_response filepath totalPages currentChunkSize chunks =
     JObj [(''action'', JStr ''read_pdf_text''), (''filepath'', JStr filepath),
           (''chunked'', JBool True), (''totalPages'', JNum totalPages),
           (''chunkSize'', JNum currentChunkSize),
           (''chunks'', JArr (map (chunk_json currentChunkSize totalPages) (enumerate 0 chunks)))]"

definition first_page_response :: "string \<Rightarrow> string \<Rightarrow> json" where
  "first_page_response filepath text =
     JObj [(''action'', JStr ''read_pdf_text''), (''filepath'', JStr filepath),
           (''startPage'', JNum 1), (''endPage'', JNum 1),
           (''text'', JStr (take 80000 text)),
           (''truncated'', JBool (length text > 80000)),
           (''message'', JStr ''PDF too large, showing first page only (truncated)'')]"

definition maxTokens :: nat where
  "maxTokens = 15000"

text \<open>
  The shrink-and-retry loop of the chunked branch, \<open>while (currentChunkSize > 0)\<close>,
  and the code after it. \<open>estimatedTokens = responseText.length / 4\<close> is at most
  \<open>maxTokens\<close> exactly when the length is at most \<open>4 * maxTokens\<close>. Both the
  too-large case and the \<open>catch\<close> set
  \<open>currentChunkSize = Math.max(1, Math.floor(currentChunkSize / 2))\<close>. A loop that
  does not end is the value \<open>None\<close>.
\<close>

partial_function (option) fit_chunks ::
  "env \<Rightarrow> world \<Rightarrow> string \<Rightarrow> number \<Rightarrow> (js_exn + string) option" where
  "fit_chunks env w filepath currentChunkSize =
     (if currentChunkSize > 0
      then (case readPDFTextChunked env w filepath currentChunkSize of
              None \<Rightarrow> None
            | Some (Inl error) \<Rightarrow> fit_chunks env w filepath (max 1 (of_int \<lfloor>currentChunkSize / 2\<rfloor>))
            | Some (Inr result) \<Rightarrow>
                (let responseText =
                       json_stringify env
                         (chunked_response filepath (snd result) currentChunkSize (fst result))
                 in if length responseText \<le> 4 * maxTokens then Some (Inr responseText)
                    else fit_chunks env w filepath (max 1 (of_int \<lfloor>currentChunkSize / 2\<rfloor>))))
      else (case readPDFText env w filepath (Some 1) (Some 1) of
              Inl e \<Rightarrow> Some (Inl e)
            | Inr text \<Rightarrow> Some (Inr (json_stringify env (first_page_response filepath text)))))"

declare fit_chunks.simps [code]

text \<open>A number inside a template literal.\<close>

definition js_number_string :: "env \<Rightarrow> number \<Rightarrow> string" where
  "js_number_string env x = (if is_integer x then number_string \<lfloor>x\<rfloor> else fraction_string env x)"

definition next_page_range :: "env \<Rightarrow> string \<Rightarrow> number \<Rightarrow> number \<Rightarrow> number \<Rightarrow> json" where
  "next_page_range env lead effectiveEndPage step totalPages =
     (if effectiveEndPage < totalPages
      then JStr (lead @ ''startPage='' @ js_number_string env (effectiveEndPage + 1)
                 @ (if lead = [] then '', endPage='' else '' and endPage='')
                 @ js_number_string env (min (effectiveEndPage + step) totalPages))
      else JNull)"

definition read_pdf_text_plain :: "env \<Rightarrow> world \<Rightarrow> tool_args \<Rightarrow> js_exn + string" where
  "read_pdf_text_plain env w args =
     (let filepath = arg_filepath args
      in case getPDFPageCount env w filepath of
           Inl e \<Rightarrow> Inl e
         | Inr totalPages \<Rightarrow>
             (let effectiveStartPage = or_default (arg_startPage args) 1;
                  effectiveEndPage =
                    (case arg_endPage args of
                       None \<Rightarrow> totalPages
                     | Some e \<Rightarrow> if e = 0 then totalPages else min e totalPages)
              in case readPDFText env w filepath (Some effectiveStartPage) (Some effectiveEndPage) of
                   Inl e \<Rightarrow> Inl e
                 | Inr text \<Rightarrow>
                     Inr (json_stringify env
                            (JObj [(''action'', JStr ''read_pdf_text''), (''filepath'', JStr filepath),
                                   (''totalPages'', JNum totalPages),
                                   (''startPage'', JNum effectiveStartPage),
                                   (''endPage'', JNum effectiveEndPage),
                                   (''hasMorePages'', JBool (effectiveEndPage < totalPages)),
                                   (''nextPageRange'', next_page_range env [] effectiveEndPage 5 totalPages),
                                   (''text'', JStr text)]))))"

definition read_pdf_text :: "env \<Rightarrow> world \<Rightarrow> tool_args \<Rightarrow> (js_exn + string) option" where
  "read_pdf_text env w args =
     (if with_default (arg_chunked args) False
      then fit_chunks env w (arg_filepath args) (min (with_default (arg_chunkSize args) 10) 2)
      else Some (read_pdf_text_plain env w args))"

definition download_and_read_pdf :: "env \<Rightarrow> world \<Rightarrow> tool_args \<Rightarrow> (js_exn + string) \<times> world" where
  "download_and_read_pdf env w args =
     (let pdfUrl = arg_pdfUrl args;
          startPage = with_default (arg_startPage args) 1;
          endPage = with_default (arg_endPage args) 10
      in case downloadPDF env w pdfUrl (arg_filename args) False of
           (Inl e, w') \<Rightarrow> (Inl e, w')
         | (Inr filepath, w') \<Rightarrow>
             (case getPDFPageCount env w' filepath of
                Inl e \<Rightarrow> (Inl e, w')
              | Inr totalPages \<Rightarrow>
                  (let effectiveEndPage = min endPage totalPages
                   in case readPDFText env w' filepath (Some startPage) (Some effectiveEndPage) of
                        Inl e \<Rightarrow> (Inl e, w')
                      | Inr text \<Rightarrow>
                          (Inr (json_stringify env
                                  (JObj [(''action'', JStr ''download_and_read_pdf''),
                                         (''pdfUrl'', JStr pdfUrl), (''filepath'', JStr filepath),
                                         (''totalPages'', JNum totalPages),
                                         (''startPage'', JNum startPage),
                                         (''endPage'', JNum effectiveEndPage),
                                         (''hasMorePages'', JBool (effectiveEndPage < totalPages)),
                                         (''nextPageRange'',
                                          next_page_range env ''Use read_pdf_text with '' effectiveEndPage 10 totalPages),
                                         (''text'', JStr text)])), w'))))"

definition list_downloaded_pdfs :: "env \<Rightarrow> world \<Rightarrow> js_exn + string" where
  "list_downloaded_pdfs env w =
     (let downloadedPDFs = listDownloadedPDFs env w
      in Inr (json_stringify env
                (JObj [(''action'', JStr ''list_downloaded_pdfs''),
                       (''downloadsDirectory'', JStr (downloadsDir env)),
                       (''files'', JArr (map JStr downloadedPDFs)),
                       (''count'', JNum (of_nat (length downloadedPDFs)))])))"

definition cleanup_downloads :: "env \<Rightarrow> world \<Rightarrow> (js_exn + string) \<times> world" where
  "cleanup_downloads env w =
     (Inr (json_stringify env
             (JObj [(''action'', JStr ''cleanup_downloads''),
                    (''message'', JStr ''All downloaded PDFs have been cleaned up'')])),
      cleanupDownloads env w)"

text \<open>
  The \<open>switch (name)\<close> inside the \<open>try\<close>: the text of the success payload, or the
  exception thrown, with the world after the call; \<open>None\<close> when the call does not
  return.
\<close>

definition tool_switch ::
  "env \<Rightarrow> world \<Rightarrow> string \<Rightarrow> tool_args \<Rightarrow> ((js_exn + string) \<times> world) option" where
  "tool_switch env w name args =
     (if name = ''search_arxiv_by_category'' then Some (search_arxiv_by_category env args, w)
      else if name = ''search_arxiv'' then Some (search_arxiv env args, w)
      else if name = ''search_google_scholar'' then Some (search_google_scholar env args, w)
      else if name = ''search_both_sources'' then Some (search_both_sources env args, w)
      else if name = ''download_pdf'' then Some (download_pdf env w args)
      else if name = ''read_pdf_text''
      then (case read_pdf_text env w args of None \<Rightarrow> None | Some r \<Rightarrow> Some (r, w))
      else if name = ''download_and_read_pdf'' then Some (download_and_read_pdf env w args)
      else if name = ''list_downloaded_pdfs'' then Some (list_downloaded_pdfs env w, w)
      else if name = ''cleanup_downloads'' then Some (cleanup_downloads env w)
      else Some (Inl (JsError (''Unknown tool: '' @ name)), w))"

text \<open>
  The request handler: the \<open>switch\<close> in its \<open>try\<close>, and the \<open>catch\<close> that turns an
  exception into the error response. The handler is an \<open>async\<close> function, so its
  outcome is a rejection (\<open>Inl\<close>) or a response (\<open>Inr\<close>).
\<close>

definition handle_call ::
  "env \<Rightarrow> world \<Rightarrow> string \<Rightarrow> tool_args \<Rightarrow> ((js_exn + tool_response) \<times> world) option" where
  "handle_call env w name args =
     (case tool_switch env w name args of
        None \<Rightarrow> None
      | Some (Inr text, w') \<Rightarrow> Some (Inr \<lparr>content = [text], isError = False\<rparr>, w')
      | Some (Inl error, w') \<Rightarrow>
          Some (Inr \<lparr>content = [''Error: '' @ error_message error], isError = True\<rparr>, w'))"

section \<open>Definitions used to state the properties\<close>

text \<open>
  The validator as the specification words it: the length is at least four and the
  first four bytes are the signature. It is compared with \<open>isValidBuffer\<close> below.
\<close>

definition spec_isValid :: "byte list \<Rightarrow> bool" where
  "spec_isValid b = (length b \<ge> 4 \<and> take 4 b = pdf_signature)"

text \<open>
  A concrete environment and a concrete world, for evaluating the definitions: the
  network is down, no PDF parses, and the storage directory holds one PDF and one
  text file.
\<close>

definition demo_env :: env where
  "demo_env =
     \<lparr> downloadsDir = ''/tmp/science_mcp_downloads'',
       date_now = (\<lambda>k. 1700 + k),
       http_get = (\<lambda>k url. Inl (JsError ''Request failed with status code 404'')),
       arxiv_api = (\<lambda>k q. Inl (JsError ''Network Error'')),
       url_title_param = (\<lambda>url. None),
       getDocument = (\<lambda>data. Inl (JsError ''Invalid PDF structure.'')),
       json_stringify = (\<lambda>v. ''{}''),
       fraction_string = (\<lambda>x. ''1.5''),
       arxiv_searchPapers = (\<lambda>q n s. Inr []),
       scholar_searchPapers = (\<lambda>q n s. Inr []) \<rparr>"

definition demo_world :: world where
  "demo_world =
     \<lparr> storage = Some [(''a.pdf'', [0x25, 0x50, 0x44, 0x46, 0x2D]), (''notes.txt'', [0x68, 0x69])],
       elsewhere = (\<lambda>p. None),
       net_log = [] \<rparr>"

text \<open>The URLs of the PDF fetches among a list of network requests.\<close>

fun http_gets :: "net_request list \<Rightarrow> string list" where
  "http_gets [] = []"
| "http_gets (HttpGet url # reqs) = url # http_gets reqs"
| "http_gets (ArxivQuery q # reqs) = http_gets reqs"

text \<open>
  An environment for the recovery path: every publisher answers 403, the arXiv API
  knows one paper, and its PDF link answers with a small PDF.
\<close>

definition fallback_env :: env where
  "fallback_env =
     demo_env
     \<lparr> http_get :=
         (\<lambda>k url. if url = ''http://arxiv.org/pdf/1706.03762v7''
                  then Inr [0x25, 0x50, 0x44, 0x46, 0x2D, 0x31]
                  else Inl (JsError ''Request failed with status code 403'')),
       arxiv_api :=
         (\<lambda>k q. Inr (Some [Some [\<lparr>link_type = ''text/html'', href = ''http://arxiv.org/abs/1706.03762v7''\<rparr>,
                                 \<lparr>link_type = ''application/pdf'', href = ''http://arxiv.org/pdf/1706.03762v7''\<rparr>]])) \<rparr>"

text \<open>
  A world whose storage directory holds one file, which begins with the signature.
\<close>

definition pdf_only_world :: world where
  "pdf_only_world =
     \<lparr> storage = Some [(''a.pdf'', [0x25, 0x50, 0x44, 0x46, 0x2D])],
       elsewhere = (\<lambda>p. None),
       net_log = [] \<rparr>"

text \<open>
  An environment whose server answers every request with the four bytes
  \<open>A5 50 44 46\<close>: the signature with the highest bit of its first byte set.
\<close>

definition high_bit_env :: env where
  "high_bit_env = demo_env \<lparr> http_get := (\<lambda>k url. Inr [0xA5, 0x50, 0x44, 0x46]) \<rparr>"

text \<open>An environment whose server answers every request with an HTML page.\<close>

definition html_env :: env where
  "html_env = demo_env \<lparr> http_get := (\<lambda>k url. Inr [0x3C, 0x68, 0x74, 0x6D, 0x6C, 0x3E]) \<rparr>"

text \<open>
  A three-page document, and an environment in which every file that passes the
  validator loads as this document.
\<close>

definition demo_document :: pdf_document where
  "demo_document =
     [Inr [TextItem ''Hello'' (Some 700), TextItem ''world'' (Some 700), TextItem ''Next line'' (Some 680)],
      Inr [MarkedContent, TextItem ''Second page'' None],
      Inr [TextItem ''Third'' (Some 10)]]"

definition pdf_env :: env where
  "pdf_env =
     demo_env
     \<lparr> getDocument :=
         (\<lambda>data. if isValidBuffer data then Inr demo_document
                 else Inl (JsError ''Invalid PDF structure.'')) \<rparr>"

definition demo_pdf_path :: string where
  "demo_pdf_path = ''/tmp/science_mcp_downloads/a.pdf''"

text \<open>A two-page document, and an environment in which every valid file loads as it.\<close>

definition two_page_document :: pdf_document where
  "two_page_document = [Inr [TextItem ''One'' (Some 700)], Inr [TextItem ''Two'' (Some 700)]]"

definition two_page_env :: env where
  "two_page_env =
     demo_env
     \<lparr> getDocument :=
         (\<lambda>data. if isValidBuffer data then Inr two_page_document
                 else Inl (JsError ''Invalid PDF structure.'')) \<rparr>"

text \<open>
  The page range of chunk \<open>i\<close> as the specification words it, on whole numbers:
  from \<open>i * chunkSize + 1\<close> to \<open>min ((i + 1) * chunkSize) totalPages\<close>. It is compared
  below with the ranges the code reads (\<open>chunk_loop\<close>) and the ranges the handler
  reports (\<open>chunk_startPage\<close>, \<open>chunk_endPage\<close>).
\<close>

definition spec_startPage :: "int \<Rightarrow> nat \<Rightarrow> int" where
  "spec_startPage chunkSize i = int i * chunkSize + 1"

definition spec_endPage :: "int \<Rightarrow> int \<Rightarrow> nat \<Rightarrow> int" where
  "spec_endPage chunkSize totalPages i = min ((int i + 1) * chunkSize) totalPages"

text \<open>
  The number of chunks for a document of \<open>totalPages\<close> pages, and reading a list of
  chunks one after the other, stopping at the first failure.
\<close>

definition chunk_count :: "int \<Rightarrow> int \<Rightarrow> nat" where
  "chunk_count totalPages chunkSize = nat ((totalPages + chunkSize - 1) div chunkSize)"

fun read_chunks :: "(nat \<Rightarrow> js_exn + string) \<Rightarrow> nat list \<Rightarrow> js_exn + string list" where
  "read_chunks rd [] = Inr []"
| "read_chunks rd (i # rest) =
     (case rd i of
        Inl e \<Rightarrow> Inl e
      | Inr chunkText \<Rightarrow>
          (case read_chunks rd rest of Inl e \<Rightarrow> Inl e | Inr texts \<Rightarrow> Inr (chunkText # texts)))"

text \<open>The text of the pages \<open>s\<close> to \<open>e\<close> of a document whose pages can all be read.\<close>

definition page_range_text :: "pdf_document \<Rightarrow> int \<Rightarrow> int \<Rightarrow> string" where
  "page_range_text doc s e =
     js_join [CHR 0x0A, CHR 0x0A] (map (\<lambda>p. page_block p (projr (doc ! nat (p - 1)))) [s..e])"

text \<open>
  Whether the attempt with chunk size \<open>currentChunkSize\<close> ends the shrink-and-retry
  loop: the chunked read succeeds and the serialized response is within the budget.
\<close>

definition attempt_fits :: "env \<Rightarrow> world \<Rightarrow> string \<Rightarrow> number \<Rightarrow> bool" where
  "attempt_fits env w filepath currentChunkSize =
     (case readPDFTextChunked env w filepath currentChunkSize of
        None \<Rightarrow> False
      | Some (Inl error) \<Rightarrow> False
      | Some (Inr result) \<Rightarrow>
          length (json_stringify env
                    (chunked_response filepath (snd result) currentChunkSize (fst result)))
            \<le> 4 * maxTokens)"

text \<open>The names the \<open>switch\<close> knows.\<close>

definition tool_names :: "string list" where
  "tool_names =
     [''search_arxiv_by_category'', ''search_arxiv'', ''search_google_scholar'',
      ''search_both_sources'', ''download_pdf'', ''read_pdf_text'', ''download_and_read_pdf'',
      ''list_downloaded_pdfs'', ''cleanup_downloads'']"

text \<open>A chunked read of a file that does not exist, with the default budget of ten pages per chunk.\<close>

definition missing_file_args :: tool_args where
  "missing_file_args =
     \<lparr> arg_category = [], arg_query = [], arg_pdfUrl = [], arg_filepath = ''/tmp/missing.pdf'',
       arg_maxResults = None, arg_sortBy = None, arg_filename = None, arg_startPage = None,
       arg_endPage = None, arg_chunked = Some True, arg_chunkSize = Some 10 \<rparr>"

section \<open>The validator: what it accepts\<close>

lemma unat_byte_lt: "unat (b::byte) < 256"
  using unsigned_less [of b, where ?'a = nat] by simp

lemma char_of_unat_byte: "(char_of (unat (b::byte)) = c) = (b = of_char c)"
proof
  assume "char_of (unat b) = c"
  then have "of_char (char_of (unat b)) = (of_char c :: nat)" by simp
  then have "unat b mod 256 = of_char c" by simp
  then have "unat b = of_char c" using unat_byte_lt [of b] by simp
  then have "(of_nat (unat b) :: byte) = of_nat (of_char c)" by simp
  then show "b = of_char c" by (simp add: of_nat_of_char)
next
  assume "b = of_char c"
  then have "b = of_nat (of_char c)" by (simp add: of_nat_of_char)
  then have "unat b = of_char c mod 256" by (simp add: unat_of_nat)
  then show "char_of (unat b) = c" by simp
qed

lemma four_elems: "4 \<le> length xs \<Longrightarrow> \<exists>a b c d rest. xs = a # b # c # d # rest"
  by (auto simp: numeral_eq_Suc Suc_le_length_iff)

text \<open>The validator in terms of bytes: each of the first four bytes is compared with its highest bit cleared.\<close>

lemma isValidBuffer_bytes:
  "isValidBuffer buffer =
     (4 \<le> length buffer \<and> map (\<lambda>b. b AND 0x7F) (take 4 buffer) = pdf_signature)"
proof (cases "4 \<le> length buffer")
  case False
  then show ?thesis by (simp add: isValidBuffer_def)
next
  case True
  then obtain a b c d rest where "buffer = a # b # c # d # rest"
    using four_elems by blast
  then show ?thesis
    by (simp add: isValidBuffer_def ascii_slice_def pdf_signature_def char_of_unat_byte)
qed

text \<open>Every buffer the specification's validator accepts is accepted by the code.\<close>

lemma spec_isValid_accepted: "spec_isValid buffer \<Longrightarrow> isValidBuffer buffer"
  by (auto simp: isValidBuffer_bytes spec_isValid_def pdf_signature_def)

lemma and_7F_id: "(b::byte) < 0x80 \<Longrightarrow> b AND 0x7F = b"
  using less_mask_eq [of b 7] by (simp add: mask_eq_decr_exp)

text \<open>On buffers whose first four bytes are 7-bit values the two validators agree.\<close>

lemma isValidBuffer_seven_bit:
  assumes "list_all (\<lambda>b. b < 0x80) (take 4 buffer)"
  shows "isValidBuffer buffer = spec_isValid buffer"
proof -
  have "map (\<lambda>b. b AND 0x7F) (take 4 buffer) = take 4 buffer"
    using assms by (simp add: list_all_iff map_idI and_7F_id)
  then show ?thesis by (simp add: isValidBuffer_bytes spec_isValid_def)
qed

text \<open>
  C5. The claim: the validator returns true if and only if the buffer has at least
  four bytes and the first four are the ASCII signature \<open>%PDF\<close>. At the four bytes
  \<open>A5 50 44 46\<close>, stored in a readable file, the code returns true although the
  first byte is not \<open>%\<close> (0x25): decoding with \<open>'ascii'\<close> clears the highest bit.
\<close>

theorem isValidPDF_high_bit:
  "isValidPDF demo_env (demo_world\<lparr>storage := Some [(''x.pdf'', [0xA5, 0x50, 0x44, 0x46])]\<rparr>)
      ''/tmp/science_mcp_downloads/x.pdf''
   \<and> \<not> spec_isValid [0xA5, 0x50, 0x44, 0x46]"
  by (simp add: isValidPDF_def readFileSync_def file_at_def storage_name_def demo_env_def
      demo_world_def plain_name_def isValidBuffer_bytes spec_isValid_def pdf_signature_def)

section \<open>File name derivation\<close>

text \<open>
  C2. The claim: \<open>https://arxiv.org/pdf/2301.00001\<close> with no file name given yields
  \<open>arxiv_2301.00001.pdf\<close>. The code tests the last path segment, \<open>2301.00001\<close>, for
  \<open>arxiv.org\<close>, not the URL, so the arXiv branch is not taken and the name is
  \<open>2301.00001.pdf\<close>.
\<close>

theorem resolve_filename_arxiv_url:
  "resolve_filename now ''https://arxiv.org/pdf/2301.00001'' None = ''2301.00001.pdf''"
  by (simp add: resolve_filename_def filename_or_derived_def baseFilename_of_def last_part_def
      js_endsWith_def suffix_to_prefix sanitize_char_def is_alnum_def)

text \<open>The arXiv branch is taken only when the last path segment itself contains \<open>arxiv.org\<close>.\<close>

lemma baseFilename_of_arxiv_branch:
  "js_includes (last_part (js_split (CHR ''/'') pdfUrl)) ''arxiv.org'' \<Longrightarrow>
   baseFilename_of now pdfUrl =
     ''arxiv_'' @ (case arxiv_id_match pdfUrl of Some arxivId \<Rightarrow> arxivId | None \<Rightarrow> ''unknown'')"
  by (simp add: baseFilename_of_def)

section \<open>Cleanup\<close>

lemma storage_name_join: "plain_name f \<Longrightarrow> storage_name env (path_join (downloadsDir env) f) = Some f"
  by (simp add: storage_name_def path_join_def)

lemma unlink_each_all:
  "storage w = Some es \<Longrightarrow> distinct (map fst es) \<Longrightarrow> list_all plain_name (map fst es) \<Longrightarrow>
   unlink_each env (map fst es) w = (None, w\<lparr>storage := Some []\<rparr>)"
proof (induction es arbitrary: w)
  case Nil
  then show ?case by simp
next
  case (Cons e es)
  obtain n b where e: "e = (n, b)" by (cases e)
  from Cons.prems e have pn: "plain_name n" and nin: "n \<notin> fst ` set es" by auto
  have del: "AList.delete n ((n, b) # es) = es"
    using nin by (simp add: delete_id)
  have ul: "unlinkSync env w (path_join (downloadsDir env) n) = Inr (w\<lparr>storage := Some es\<rparr>)"
    using Cons.prems(1) e pn del
    by (simp add: unlinkSync_def file_at_def storage_name_join)
  have "unlink_each env (map fst es) (w\<lparr>storage := Some es\<rparr>) = (None, w\<lparr>storage := Some es\<rparr>\<lparr>storage := Some []\<rparr>)"
    using Cons.prems e by (intro Cons.IH) auto
  then show ?case using ul e by simp
qed

lemma cleanup_result:
  assumes "wf_storage w"
  shows "cleanupDownloads env w = (case storage w of None \<Rightarrow> w | Some es \<Rightarrow> w\<lparr>storage := Some []\<rparr>)"
proof (cases "storage w")
  case None
  then show ?thesis by (simp add: cleanupDownloads_def readdirSync_def)
next
  case (Some es)
  with assms have "distinct (map fst es)" "list_all plain_name (map fst es)"
    by (simp_all add: wf_storage_def storage_files_def)
  with Some show ?thesis
    by (simp add: cleanupDownloads_def readdirSync_def unlink_each_all)
qed

text \<open>
  C9. Cleanup is idempotent and never fails: for a storage directory whose listing
  is well formed (plain names, none twice), after one call the directory holds no
  file, a second call changes nothing, and a call on an empty (or missing)
  directory changes nothing; nothing outside the storage directory is touched. The
  function returns no exception by its type: its \<open>catch\<close> swallows every error.
\<close>

theorem cleanupDownloads_idempotent:
  assumes "wf_storage w"
  shows "storage_files (cleanupDownloads env w) = []
       \<and> cleanupDownloads env (cleanupDownloads env w) = cleanupDownloads env w
       \<and> (storage_files w = [] \<longrightarrow> cleanupDownloads env w = w)
       \<and> elsewhere (cleanupDownloads env w) = elsewhere w
       \<and> net_log (cleanupDownloads env w) = net_log w"
proof -
  have wf': "wf_storage (cleanupDownloads env w)"
    using assms by (simp add: cleanup_result wf_storage_def storage_files_def split: option.splits)
  show ?thesis
    using assms wf'
    by (auto simp add: cleanup_result storage_files_def split: option.splits)
qed

theorem cleanupDownloads_idempotent_witness:
  "wf_storage demo_world
   \<and> storage_files demo_world \<noteq> []
   \<and> storage_files (cleanupDownloads demo_env demo_world) = []
   \<and> cleanupDownloads demo_env (cleanupDownloads demo_env demo_world) = cleanupDownloads demo_env demo_world"
proof -
  have h: "wf_storage demo_world"
    by (simp add: wf_storage_def storage_files_def demo_world_def plain_name_def)
  have "storage_files demo_world \<noteq> []"
    by (simp add: storage_files_def demo_world_def)
  with h cleanupDownloads_idempotent [OF h, of demo_env] show ?thesis by simp
qed

section \<open>Listing the downloads\<close>

text \<open>
  C10. Listing is total and filtered: the result is exactly the entries of the
  storage directory whose name ends with \<open>.pdf\<close>, in listing order, each joined to
  the directory; so every returned path ends with \<open>.pdf\<close> and lies in the storage
  directory (and is absolute when the directory is); when the directory cannot be
  read the result is the empty list.
\<close>

theorem listDownloadedPDFs_filtered:
  "listDownloadedPDFs env w =
     map (path_join (downloadsDir env)) (filter (\<lambda>file. js_endsWith file ''.pdf'') (map fst (storage_files w)))
   \<and> list_all (\<lambda>p. js_endsWith p ''.pdf'' \<and> prefix (downloadsDir env @ ''/'') p) (listDownloadedPDFs env w)
   \<and> (prefix ''/'' (downloadsDir env) \<longrightarrow> list_all (prefix ''/'') (listDownloadedPDFs env w))
   \<and> listDownloadedPDFs env (w\<lparr>storage := None\<rparr>) = []"
proof -
  have eq: "listDownloadedPDFs env w =
     map (path_join (downloadsDir env)) (filter (\<lambda>file. js_endsWith file ''.pdf'') (map fst (storage_files w)))"
    by (simp add: listDownloadedPDFs_def readdirSync_def storage_files_def split: option.splits)
  have suf: "js_endsWith (path_join (downloadsDir env) f) ''.pdf''" if "js_endsWith f ''.pdf''" for f
    using that suffix_appendI [of "''.pdf''" f "downloadsDir env @ ''/''"]
    by (simp add: js_endsWith_def path_join_def)
  have pre: "prefix (downloadsDir env @ ''/'') (path_join (downloadsDir env) f)" for f
    using prefixI [of "path_join (downloadsDir env) f" "downloadsDir env @ ''/''" f]
    by (simp add: path_join_def)
  have abs: "prefix ''/'' (path_join (downloadsDir env) f)" if "prefix ''/'' (downloadsDir env)" for f
    using that prefix_prefix [of "''/''" "downloadsDir env" "''/'' @ f"]
    by (simp add: path_join_def)
  show ?thesis
  proof (intro conjI impI)
    show "listDownloadedPDFs env w =
       map (path_join (downloadsDir env)) (filter (\<lambda>file. js_endsWith file ''.pdf'') (map fst (storage_files w)))"
      by (rule eq)
    show "list_all (\<lambda>p. js_endsWith p ''.pdf'' \<and> prefix (downloadsDir env @ ''/'') p) (listDownloadedPDFs env w)"
      unfolding eq list_all_iff using suf pre by auto
    show "list_all (prefix ''/'') (listDownloadedPDFs env w)" if "prefix ''/'' (downloadsDir env)"
      unfolding eq list_all_iff using abs [OF that] by auto
    show "listDownloadedPDFs env (w\<lparr>storage := None\<rparr>) = []"
      by (simp add: listDownloadedPDFs_def readdirSync_def)
  qed
qed

theorem listDownloadedPDFs_filtered_witness:
  "prefix ''/'' (downloadsDir demo_env)
   \<and> listDownloadedPDFs demo_env demo_world = [''/tmp/science_mcp_downloads/a.pdf'']
   \<and> list_all (prefix ''/'') (listDownloadedPDFs demo_env demo_world)"
proof -
  have h: "prefix ''/'' (downloadsDir demo_env)"
    by (simp add: demo_env_def)
  have v: "map (path_join (downloadsDir demo_env))
       (filter (\<lambda>file. js_endsWith file ''.pdf'') (map fst (storage_files demo_world)))
     = [''/tmp/science_mcp_downloads/a.pdf'']"
    by (simp add: demo_env_def demo_world_def storage_files_def js_endsWith_def suffix_to_prefix
        path_join_def)
  from listDownloadedPDFs_filtered [of demo_env demo_world] h v show ?thesis by simp
qed

section \<open>Download\<close>

lemma sanitize_not_slash: "sanitize_char c \<noteq> CHR ''/''"
  by (auto simp: sanitize_char_def is_alnum_def Let_def)

lemma plain_resolve_filename: "plain_name (resolve_filename now pdfUrl filename)"
proof -
  have "(if js_endsWith f1 ''.pdf'' then f1 else f1 @ ''.pdf'') \<noteq> []" for f1
    by (auto simp: js_endsWith_def)
  moreover have "CHR ''/'' \<notin> set (map sanitize_char f)" for f
    using sanitize_not_slash [symmetric] by auto
  ultimately show ?thesis
    by (simp add: plain_name_def resolve_filename_def Let_def del: set_map)
qed

lemma storage_name_resolve:
  "storage_name env (path_join (downloadsDir env) (resolve_filename now pdfUrl filename))
     = Some (resolve_filename now pdfUrl filename)"
  by (simp add: storage_name_join plain_resolve_filename)

lemma writeFileSync_storage:
  "storage w = Some entries \<Longrightarrow> plain_name name \<Longrightarrow>
   writeFileSync env w (path_join (downloadsDir env) name) data
     = Inr (w\<lparr>storage := Some (AList.update name data entries)\<rparr>)"
  by (simp add: writeFileSync_def storage_name_join)

lemma writeFileSync_missing:
  "storage w = None \<Longrightarrow> plain_name name \<Longrightarrow>
   writeFileSync env w (path_join (downloadsDir env) name) data
     = Inl (enoent ''open'' (path_join (downloadsDir env) name))"
  by (simp add: writeFileSync_def storage_name_join)

lemma file_at_storage:
  "plain_name name \<Longrightarrow>
   file_at env w (path_join (downloadsDir env) name)
     = (case storage w of None \<Rightarrow> None | Some entries \<Rightarrow> map_of entries name)"
  by (simp add: file_at_def storage_name_join)

lemma unlinkSync_storage:
  "storage w = Some entries \<Longrightarrow> plain_name name \<Longrightarrow> map_of entries name = Some data \<Longrightarrow>
   unlinkSync env w (path_join (downloadsDir env) name)
     = Inr (w\<lparr>storage := Some (AList.delete name entries)\<rparr>)"
  by (simp add: unlinkSync_def file_at_storage storage_name_join)

text \<open>What one attempt does, by cases on the fetch, the directory and the validator.\<close>

lemma download_attempt_cases:
  "download_attempt env w pdfUrl filename =
     (let w1 = w\<lparr>net_log := net_log w @ [HttpGet pdfUrl]\<rparr>;
          fname = resolve_filename (date_now env (Suc (length (net_log w)))) pdfUrl filename;
          filepath = path_join (downloadsDir env) fname
      in case http_get env (length (net_log w)) pdfUrl of
           Inl e \<Rightarrow> (Inl e, filename, w1)
         | Inr data \<Rightarrow>
             (case storage w of
                None \<Rightarrow> (Inl (enoent ''open'' filepath), Some fname, w1)
              | Some entries \<Rightarrow>
                  if isValidBuffer data
                  then (Inr filepath, Some fname, w1\<lparr>storage := Some (AList.update fname data entries)\<rparr>)
                  else (Inl (JsError ''Downloaded file is not a valid PDF''), Some fname,
                        w1\<lparr>storage := Some (AList.delete fname entries)\<rparr>)))"
proof -
  let ?w1 = "w\<lparr>net_log := net_log w @ [HttpGet pdfUrl]\<rparr>"
  let ?fname = "resolve_filename (date_now env (Suc (length (net_log w)))) pdfUrl filename"
  have pn: "plain_name ?fname" by (rule plain_resolve_filename)
  show ?thesis
  proof (cases "http_get env (length (net_log w)) pdfUrl")
    case (Inl e)
    then show ?thesis by (simp add: download_attempt_def Let_def)
  next
    case (Inr data)
    show ?thesis
    proof (cases "storage w")
      case None
      then have "storage ?w1 = None" by simp
      from writeFileSync_missing [OF this pn] Inr None show ?thesis
        by (simp add: download_attempt_def Let_def)
    next
      case (Some entries)
      then have s1: "storage ?w1 = Some entries" by simp
      let ?w2 = "?w1\<lparr>storage := Some (AList.update ?fname data entries)\<rparr>"
      have wr: "writeFileSync env ?w1 (path_join (downloadsDir env) ?fname) data = Inr ?w2"
        using writeFileSync_storage [OF s1 pn] .
      have fa: "file_at env ?w2 (path_join (downloadsDir env) ?fname) = Some data"
        by (simp add: file_at_storage pn update_conv')
      have valid: "isValidPDF env ?w2 (path_join (downloadsDir env) ?fname) = isValidBuffer data"
        by (simp add: isValidPDF_def readFileSync_def fa)
      have ul: "unlinkSync env ?w2 (path_join (downloadsDir env) ?fname)
                  = Inr (?w2\<lparr>storage := Some (AList.delete ?fname (AList.update ?fname data entries))\<rparr>)"
        by (rule unlinkSync_storage) (simp_all add: pn update_conv')
      show ?thesis
        using Inr Some wr valid ul
        by (simp add: download_attempt_def delete_update_same Let_def)
    qed
  qed
qed

lemma http_gets_append: "http_gets (a @ b) = http_gets a @ http_gets b"
  by (induction a rule: http_gets.induct) simp_all

lemma set_delete_subset: "set (AList.delete k es) \<subseteq> set es"
  by (auto simp: AList.delete_eq)

lemma attempt_log:
  "download_attempt env w pdfUrl filename = (r, f', w') \<Longrightarrow> net_log w' = net_log w @ [HttpGet pdfUrl]"
  by (auto simp: download_attempt_cases Let_def split: sum.splits option.splits if_splits)

lemma attempt_elsewhere:
  "download_attempt env w pdfUrl filename = (r, f', w') \<Longrightarrow> elsewhere w' = elsewhere w"
  by (auto simp: download_attempt_cases Let_def split: sum.splits option.splits if_splits)

lemma attempt_failed_storage:
  "download_attempt env w pdfUrl filename = (Inl e, f', w') \<Longrightarrow>
   set (storage_files w') \<subseteq> set (storage_files w)"
  by (auto simp: download_attempt_cases Let_def storage_files_def
      split: sum.splits option.splits if_splits dest: subsetD [OF set_delete_subset])

lemma findPaperOnArxiv_frame:
  assumes "findPaperOnArxiv env w title = (r, w')"
  shows "storage w' = storage w \<and> elsewhere w' = elsewhere w
       \<and> (\<exists>qs. net_log w' = net_log w @ qs \<and> http_gets qs = [] \<and> length qs \<le> 2)"
proof -
  let ?q1 = "ArxivQuery (''ti:'' @ [CHR 0x22] @ title @ [CHR 0x22])"
  from assms consider
      "w' = w\<lparr>net_log := net_log w @ [?q1]\<rparr>"
    | q2 where "w' = w\<lparr>net_log := net_log w @ [?q1]\<rparr>\<lparr>net_log := net_log (w\<lparr>net_log := net_log w @ [?q1]\<rparr>) @ [ArxivQuery q2]\<rparr>"
    by (auto simp: findPaperOnArxiv_def Let_def split: sum.splits option.splits)
  then show ?thesis
  proof cases
    case 1
    then have "net_log w' = net_log w @ [?q1]" by simp
    with 1 show ?thesis by auto
  next
    case 2
    then have "net_log w' = net_log w @ [?q1, ArxivQuery q2]" by simp
    with 2 show ?thesis by auto
  qed
qed

lemma findPaperOnArxiv_nonempty:
  "findPaperOnArxiv env w title = (Some u, w') \<Longrightarrow> u \<noteq> []"
  by (auto simp: findPaperOnArxiv_def Let_def href_or_null_def first_pdf_href_def
      split: sum.splits option.splits list.splits if_splits)

lemma downloadPDF_retry:
  "downloadPDF env w pdfUrl filename True =
     (case download_attempt env w pdfUrl filename of
        (Inr filepath, filename', w') \<Rightarrow> (Inr filepath, w')
      | (Inl error, filename', w') \<Rightarrow>
          (Inl (JsError (''Failed to download PDF: '' @ error_message error)), w'))"
  by (simp add: downloadPDF.simps split: prod.splits sum.splits)

lemma retry_log:
  "downloadPDF env w pdfUrl filename True = (r, w') \<Longrightarrow> net_log w' = net_log w @ [HttpGet pdfUrl]"
  by (auto simp: downloadPDF_retry split: prod.splits sum.splits dest: attempt_log)

lemma retry_failed_storage:
  "downloadPDF env w pdfUrl filename True = (Inl e, w') \<Longrightarrow> set (storage_files w') \<subseteq> set (storage_files w)"
  by (auto simp: downloadPDF_retry split: prod.splits sum.splits dest: attempt_failed_storage)

text \<open>The three ways a first call (not a retry) can go, after its own attempt.\<close>

lemma downloadPDF_first_shape:
  assumes att: "download_attempt env w pdfUrl filename = (r, f', w1)"
  obtains
    (direct) "downloadPDF env w pdfUrl filename False =
        (case r of Inl error \<Rightarrow> Inl (JsError (''Failed to download PDF: '' @ error_message error))
                 | Inr filepath \<Rightarrow> Inr filepath, w1)"
  | (lookup) error title w2 where "r = Inl error" "isPaywalledSource pdfUrl"
      "findPaperOnArxiv env w1 title = (None, w2)"
      "downloadPDF env w pdfUrl filename False =
         (Inl (JsError (''Failed to download PDF: '' @ error_message error)), w2)"
  | (retry) error title u w2 where "r = Inl error" "isPaywalledSource pdfUrl"
      "findPaperOnArxiv env w1 title = (Some u, w2)"
      "downloadPDF env w pdfUrl filename False =
         (case downloadPDF env w2 u f' True of
            (Inl arxivError, w3) \<Rightarrow> (Inl (JsError (''Failed to download PDF: '' @ error_message error)), w3)
          | (Inr filepath, w3) \<Rightarrow> (Inr filepath, w3))"
proof (cases r)
  case (Inr filepath)
  with att have "downloadPDF env w pdfUrl filename False = (Inr filepath, w1)"
    by (simp add: downloadPDF.simps [of env w pdfUrl filename False])
  with Inr direct show ?thesis by simp
next
  case (Inl error)
  let ?failure = "Inl (JsError (''Failed to download PDF: '' @ error_message error)) :: js_exn + string"
  show ?thesis
  proof (cases "isPaywalledSource pdfUrl")
    case False
    with att Inl have "downloadPDF env w pdfUrl filename False = (?failure, w1)"
      by (simp add: downloadPDF.simps [of env w pdfUrl filename False])
    with Inl direct show ?thesis by simp
  next
    case True
    show ?thesis
    proof (cases "extractTitleFromUrl env pdfUrl f'")
      case None
      with att Inl True have "downloadPDF env w pdfUrl filename False = (?failure, w1)"
        by (simp add: downloadPDF.simps [of env w pdfUrl filename False])
      with Inl direct show ?thesis by simp
    next
      case (Some title)
      show ?thesis
      proof (cases "title = []")
        case empty: True
        with att Inl True Some have "downloadPDF env w pdfUrl filename False = (?failure, w1)"
          by (simp add: downloadPDF.simps [of env w pdfUrl filename False])
        with Inl direct show ?thesis by simp
      next
        case nonempty: False
        obtain found w2 where fnd: "findPaperOnArxiv env w1 title = (found, w2)"
          by (cases "findPaperOnArxiv env w1 title")
        show ?thesis
        proof (cases found)
          case None
          with att Inl True Some nonempty fnd
          have "downloadPDF env w pdfUrl filename False = (?failure, w2)"
            by (simp add: downloadPDF.simps [of env w pdfUrl filename False])
          with Inl True fnd None lookup show ?thesis by simp
        next
          case (Some u)
          with att Inl True \<open>extractTitleFromUrl env pdfUrl f' = Some title\<close> nonempty fnd
          have "downloadPDF env w pdfUrl filename False =
                  (case downloadPDF env w2 u f' True of
                     (Inl arxivError, w3) \<Rightarrow> (?failure, w3)
                   | (Inr filepath, w3) \<Rightarrow> (Inr filepath, w3))"
            by (simp add: downloadPDF.simps [of env w pdfUrl filename False]
                split: prod.splits sum.splits)
          with Inl True fnd Some retry show ?thesis by simp
        qed
      qed
    qed
  qed
qed

lemma first_call_log:
  "\<exists>reqs. net_log (snd (downloadPDF env w pdfUrl filename False)) = net_log w @ reqs
      \<and> (http_gets reqs = [pdfUrl] \<or> (\<exists>arxivPdfUrl. http_gets reqs = [pdfUrl, arxivPdfUrl]))
      \<and> (\<not> isPaywalledSource pdfUrl \<longrightarrow> reqs = [HttpGet pdfUrl])
      \<and> length reqs \<le> 4"
proof -
  obtain r f' w1 where att: "download_attempt env w pdfUrl filename = (r, f', w1)"
    by (cases "download_attempt env w pdfUrl filename") auto
  note l1 = attempt_log [OF att]
  let ?call = "downloadPDF env w pdfUrl filename False"
  from att show ?thesis
  proof (cases rule: downloadPDF_first_shape)
    case direct
    then have "net_log (snd ?call) = net_log w @ [HttpGet pdfUrl]" using l1 by simp
    then show ?thesis by simp
  next
    case (lookup error title w2)
    from findPaperOnArxiv_frame [OF lookup(3)] obtain qs where
      qs: "net_log w2 = net_log w1 @ qs" "http_gets qs = []" "length qs \<le> 2" by blast
    have "net_log (snd ?call) = net_log w @ (HttpGet pdfUrl # qs)"
      using lookup(4) qs(1) l1 by simp
    moreover have "http_gets (HttpGet pdfUrl # qs) = [pdfUrl]" using qs(2) by simp
    moreover have "length (HttpGet pdfUrl # qs) \<le> 4" using qs(3) by simp
    ultimately show ?thesis using lookup(2) by blast
  next
    case (retry error title u w2)
    from findPaperOnArxiv_frame [OF retry(3)] obtain qs where
      qs: "net_log w2 = net_log w1 @ qs" "http_gets qs = []" "length qs \<le> 2" by blast
    obtain r3 w3 where call3: "downloadPDF env w2 u f' True = (r3, w3)"
      by (cases "downloadPDF env w2 u f' True")
    have "snd ?call = w3" using retry(4) call3 by (simp split: sum.splits)
    then have "net_log (snd ?call) = net_log w @ (HttpGet pdfUrl # qs @ [HttpGet u])"
      using retry_log [OF call3] qs(1) l1 by simp
    moreover have "http_gets (HttpGet pdfUrl # qs @ [HttpGet u]) = [pdfUrl, u]"
      using qs(2) by (simp add: http_gets_append)
    moreover have "length (HttpGet pdfUrl # qs @ [HttpGet u]) \<le> 4" using qs(3) by simp
    ultimately show ?thesis using retry(2) by blast
  qed
qed

text \<open>
  C3. A call to \<open>downloadPDF\<close> attempts at most one fallback hop. Every invocation
  starts with exactly one PDF fetch, so the fetches logged by a call count its
  invocations: there are one or two; a call with \<open>isRetry = true\<close> makes exactly its
  own fetch and no arXiv lookup, and so does a call on a URL that is not paywalled.
  At most four requests are made in all (two fetches, two arXiv queries).
  \<open>downloadPDF\<close> is a total function: its recursion was shown to terminate on the
  measure that is 1 for a first call and 0 for a retry.
\<close>

theorem downloadPDF_one_fallback_hop:
  "\<exists>reqs. net_log (snd (downloadPDF env w pdfUrl filename isRetry)) = net_log w @ reqs
      \<and> (http_gets reqs = [pdfUrl] \<or> (\<exists>arxivPdfUrl. http_gets reqs = [pdfUrl, arxivPdfUrl]))
      \<and> (isRetry \<longrightarrow> reqs = [HttpGet pdfUrl])
      \<and> (\<not> isPaywalledSource pdfUrl \<longrightarrow> reqs = [HttpGet pdfUrl])
      \<and> length reqs \<le> 4"
proof (cases isRetry)
  case True
  obtain r w' where call: "downloadPDF env w pdfUrl filename True = (r, w')"
    by (cases "downloadPDF env w pdfUrl filename True")
  from retry_log [OF call] call True show ?thesis by simp
next
  case False
  with first_call_log [of env w pdfUrl filename] show ?thesis by simp
qed

theorem downloadPDF_one_fallback_hop_witness:
  "net_log (snd (downloadPDF fallback_env demo_world ''https://sciencedirect.com/paper123.pdf''
                   (Some ''Attention Is All You Need'') True))
     = [HttpGet ''https://sciencedirect.com/paper123.pdf'']
   \<and> \<not> isPaywalledSource ''https://example.org/a.pdf''
   \<and> net_log (snd (downloadPDF html_env demo_world ''https://example.org/a.pdf'' None False))
     = [HttpGet ''https://example.org/a.pdf'']
   \<and> isPaywalledSource ''https://sciencedirect.com/paper123.pdf''
   \<and> http_gets (net_log (snd (downloadPDF fallback_env demo_world ''https://sciencedirect.com/paper123.pdf''
                   (Some ''Attention Is All You Need'') False)))
     = [''https://sciencedirect.com/paper123.pdf'', ''http://arxiv.org/pdf/1706.03762v7'']"
proof -
  have e: "net_log demo_world = []" by (simp add: demo_world_def)
  have np: "\<not> isPaywalledSource ''https://example.org/a.pdf''"
    by (simp add: isPaywalledSource_def paywalledDomains_def)
  have p: "isPaywalledSource ''https://sciencedirect.com/paper123.pdf''"
    by (simp add: isPaywalledSource_def paywalledDomains_def)
  have a: "net_log (snd (downloadPDF fallback_env demo_world ''https://sciencedirect.com/paper123.pdf''
                   (Some ''Attention Is All You Need'') True))
     = [HttpGet ''https://sciencedirect.com/paper123.pdf'']"
    using downloadPDF_one_fallback_hop [of fallback_env demo_world
        "''https://sciencedirect.com/paper123.pdf''" "Some ''Attention Is All You Need''" True] e
    by auto
  have b: "net_log (snd (downloadPDF html_env demo_world ''https://example.org/a.pdf'' None False))
     = [HttpGet ''https://example.org/a.pdf'']"
    using downloadPDF_one_fallback_hop [of html_env demo_world "''https://example.org/a.pdf''" None False]
      e np
    by auto
  have c: "http_gets (net_log (snd (downloadPDF fallback_env demo_world ''https://sciencedirect.com/paper123.pdf''
                   (Some ''Attention Is All You Need'') False)))
     = [''https://sciencedirect.com/paper123.pdf'', ''http://arxiv.org/pdf/1706.03762v7'']"
    by code_simp
  from a b c np p show ?thesis by simp
qed

lemma downloadPDF_failed_storage:
  assumes "downloadPDF env w pdfUrl filename isRetry = (Inl e, w')"
  shows "set (storage_files w') \<subseteq> set (storage_files w)"
proof (cases isRetry)
  case True
  with assms have "downloadPDF env w pdfUrl filename True = (Inl e, w')" by simp
  then show ?thesis by (rule retry_failed_storage)
next
  case False
  obtain r f' w1 where att: "download_attempt env w pdfUrl filename = (r, f', w1)"
    by (cases "download_attempt env w pdfUrl filename") auto
  from assms False have call: "downloadPDF env w pdfUrl filename False = (Inl e, w')" by simp
  from att show ?thesis
  proof (cases rule: downloadPDF_first_shape)
    case direct
    with call obtain e1 where "r = Inl e1" "w' = w1" by (cases r) auto
    with attempt_failed_storage [of env w pdfUrl filename e1 f' w1] att show ?thesis by simp
  next
    case (lookup error title w2)
    from findPaperOnArxiv_frame [OF lookup(3)] have "storage_files w2 = storage_files w1"
      by (simp add: storage_files_def)
    moreover from lookup(4) call have "w' = w2" by simp
    moreover have "set (storage_files w1) \<subseteq> set (storage_files w)"
      using attempt_failed_storage [of env w pdfUrl filename error f' w1] att lookup(1) by simp
    ultimately show ?thesis by simp
  next
    case (retry error title u w2)
    from findPaperOnArxiv_frame [OF retry(3)] have eq: "storage_files w2 = storage_files w1"
      by (simp add: storage_files_def)
    have s1: "set (storage_files w1) \<subseteq> set (storage_files w)"
      using attempt_failed_storage [of env w pdfUrl filename error f' w1] att retry(1) by simp
    obtain r3 w3 where call3: "downloadPDF env w2 u f' True = (r3, w3)"
      by (cases "downloadPDF env w2 u f' True")
    with retry(4) call obtain e3 where "r3 = Inl e3" "w' = w3"
      by (cases r3) auto
    with call3 have "set (storage_files w') \<subseteq> set (storage_files w2)"
      using retry_failed_storage [of env w2 u f' e3 w3] by simp
    with eq s1 show ?thesis by auto
  qed
qed

text \<open>
  When the fetched bytes are rejected by the validator of the code (and the storage
  directory exists, so that the file can be written), the attempt deletes the file
  it has just written and then fails with "not a valid PDF": afterwards the file
  does not exist. A call that fails, first call or retry, leaves no file behind:
  every file of the storage directory after it was there, with the same content,
  before it.
\<close>

lemma rejected_download_is_deleted:
  assumes fetched: "http_get env (length (net_log w)) pdfUrl = Inr data"
      and invalid: "\<not> isValidBuffer data"
      and dir: "storage w = Some entries"
  shows "(\<exists>fname w'.
            download_attempt env w pdfUrl filename
              = (Inl (JsError ''Downloaded file is not a valid PDF''), Some fname, w')
          \<and> \<not> existsSync env w' (path_join (downloadsDir env) fname)
          \<and> storage w' = Some (AList.delete fname entries))
       \<and> fst (downloadPDF env w pdfUrl filename True)
            = Inl (JsError ''Failed to download PDF: Downloaded file is not a valid PDF'')
       \<and> (\<forall>isRetry e. fst (downloadPDF env w pdfUrl filename isRetry) = Inl e \<longrightarrow>
            set (storage_files (snd (downloadPDF env w pdfUrl filename isRetry))) \<subseteq> set (storage_files w)
          \<and> (list_all (\<lambda>entry. spec_isValid (snd entry)) (storage_files w) \<longrightarrow>
               list_all (\<lambda>entry. spec_isValid (snd entry))
                 (storage_files (snd (downloadPDF env w pdfUrl filename isRetry)))))"
proof (intro conjI allI impI)
  let ?fname = "resolve_filename (date_now env (Suc (length (net_log w)))) pdfUrl filename"
  let ?w' = "w\<lparr>net_log := net_log w @ [HttpGet pdfUrl], storage := Some (AList.delete ?fname entries)\<rparr>"
  have att: "download_attempt env w pdfUrl filename
               = (Inl (JsError ''Downloaded file is not a valid PDF''), Some ?fname, ?w')"
    using fetched invalid dir by (simp add: download_attempt_cases Let_def)
  have gone: "\<not> existsSync env ?w' (path_join (downloadsDir env) ?fname)"
    by (simp add: existsSync_def file_at_storage plain_resolve_filename delete_conv')
  show "\<exists>fname w'.
            download_attempt env w pdfUrl filename
              = (Inl (JsError ''Downloaded file is not a valid PDF''), Some fname, w')
          \<and> \<not> existsSync env w' (path_join (downloadsDir env) fname)
          \<and> storage w' = Some (AList.delete fname entries)"
    using att gone by (intro exI [of _ ?fname] exI [of _ ?w']) simp
  show "fst (downloadPDF env w pdfUrl filename True)
            = Inl (JsError ''Failed to download PDF: Downloaded file is not a valid PDF'')"
    using att by (simp add: downloadPDF_retry)
next
  fix isRetry e
  assume failed: "fst (downloadPDF env w pdfUrl filename isRetry) = Inl e"
  then have call: "downloadPDF env w pdfUrl filename isRetry
                     = (Inl e, snd (downloadPDF env w pdfUrl filename isRetry))"
    by (simp add: prod_eq_iff)
  show sub: "set (storage_files (snd (downloadPDF env w pdfUrl filename isRetry))) \<subseteq> set (storage_files w)"
    by (rule downloadPDF_failed_storage [OF call])
  assume "list_all (\<lambda>entry. spec_isValid (snd entry)) (storage_files w)"
  with sub show "list_all (\<lambda>entry. spec_isValid (snd entry))
                 (storage_files (snd (downloadPDF env w pdfUrl filename isRetry)))"
    by (auto simp: list_all_iff)
qed

lemma rejected_download_is_deleted_html:
  "http_get html_env (length (net_log demo_world)) ''https://example.org/paper.pdf''
     = Inr [0x3C, 0x68, 0x74, 0x6D, 0x6C, 0x3E]
   \<and> \<not> isValidBuffer [0x3C, 0x68, 0x74, 0x6D, 0x6C, 0x3E]
   \<and> fst (downloadPDF html_env demo_world ''https://example.org/paper.pdf'' None True)
       = Inl (JsError ''Failed to download PDF: Downloaded file is not a valid PDF'')
   \<and> set (storage_files (snd (downloadPDF html_env demo_world ''https://example.org/paper.pdf'' None True)))
       \<subseteq> set (storage_files demo_world)"
proof -
  have h1: "http_get html_env (length (net_log demo_world)) ''https://example.org/paper.pdf''
              = Inr [0x3C, 0x68, 0x74, 0x6D, 0x6C, 0x3E]"
    by (simp add: html_env_def demo_env_def)
  have h2: "\<not> isValidBuffer [0x3C, 0x68, 0x74, 0x6D, 0x6C, 0x3E]"
    by (simp add: isValidBuffer_bytes pdf_signature_def)
  have h3: "storage demo_world
              = Some [(''a.pdf'', [0x25, 0x50, 0x44, 0x46, 0x2D]), (''notes.txt'', [0x68, 0x69])]"
    by (simp add: demo_world_def)
  from rejected_download_is_deleted [OF h1 h2 h3, of None] h1 h2 show ?thesis by simp
qed

text \<open>
  C4. The claim: whenever the fetched bytes fail the signature validation, the file
  just written is deleted, so every file that remains in the storage directory
  begins with \<open>%PDF\<close>. The code deletes the file only when its own validator
  rejects it, and that validator compares the first four bytes with their highest
  bit cleared. So when the fetched bytes have no signature but pass the validator
  of the code, the download succeeds, first call or retry, the file is kept with
  these bytes, and the storage directory holds a file that does not begin with
  \<open>%PDF\<close>.
\<close>

theorem unsigned_download_is_kept:
  assumes fetched: "http_get env (length (net_log w)) pdfUrl = Inr data"
      and unsigned: "\<not> spec_isValid data"
      and accepted: "isValidBuffer data"
      and dir: "storage w = Some entries"
  shows "\<exists>fname w'.
           downloadPDF env w pdfUrl filename isRetry = (Inr (path_join (downloadsDir env) fname), w')
         \<and> file_at env w' (path_join (downloadsDir env) fname) = Some data
         \<and> (fname, data) \<in> set (storage_files w')
         \<and> \<not> list_all (\<lambda>entry. spec_isValid (snd entry)) (storage_files w')"
proof -
  let ?fname = "resolve_filename (date_now env (Suc (length (net_log w)))) pdfUrl filename"
  let ?w' = "w\<lparr>net_log := net_log w @ [HttpGet pdfUrl],
               storage := Some (AList.update ?fname data entries)\<rparr>"
  have pn: "plain_name ?fname" by (rule plain_resolve_filename)
  have att: "download_attempt env w pdfUrl filename
               = (Inr (path_join (downloadsDir env) ?fname), Some ?fname, ?w')"
    using fetched accepted dir by (simp add: download_attempt_cases Let_def)
  then have call: "downloadPDF env w pdfUrl filename isRetry
                     = (Inr (path_join (downloadsDir env) ?fname), ?w')"
    by (simp add: downloadPDF.simps)
  have look: "map_of (AList.update ?fname data entries) ?fname = Some data"
    by (simp add: update_conv')
  then have kept: "file_at env ?w' (path_join (downloadsDir env) ?fname) = Some data"
    by (simp add: file_at_storage pn)
  from look have mem: "(?fname, data) \<in> set (storage_files ?w')"
    by (simp add: storage_files_def map_of_SomeD)
  with unsigned have "\<not> list_all (\<lambda>entry. spec_isValid (snd entry)) (storage_files ?w')"
    by (force simp: list_all_iff)
  with call kept mem show ?thesis by blast
qed

theorem unsigned_download_is_kept_witness:
  "http_get high_bit_env (length (net_log pdf_only_world)) ''https://example.org/x.pdf''
     = Inr [0xA5, 0x50, 0x44, 0x46]
   \<and> \<not> spec_isValid [0xA5, 0x50, 0x44, 0x46]
   \<and> isValidBuffer [0xA5, 0x50, 0x44, 0x46]
   \<and> list_all (\<lambda>entry. spec_isValid (snd entry)) (storage_files pdf_only_world)
   \<and> fst (downloadPDF high_bit_env pdf_only_world ''https://example.org/x.pdf'' None False)
       = Inr ''/tmp/science_mcp_downloads/x.pdf''
   \<and> storage (snd (downloadPDF high_bit_env pdf_only_world ''https://example.org/x.pdf'' None False))
       = Some [(''a.pdf'', [0x25, 0x50, 0x44, 0x46, 0x2D]), (''x.pdf'', [0xA5, 0x50, 0x44, 0x46])]
   \<and> \<not> list_all (\<lambda>entry. spec_isValid (snd entry))
         (storage_files (snd (downloadPDF high_bit_env pdf_only_world ''https://example.org/x.pdf'' None False)))"
proof -
  have h1: "http_get high_bit_env (length (net_log pdf_only_world)) ''https://example.org/x.pdf''
              = Inr [0xA5, 0x50, 0x44, 0x46]"
    by (simp add: high_bit_env_def demo_env_def)
  have h2: "\<not> spec_isValid [0xA5, 0x50, 0x44, 0x46]"
    by (simp add: spec_isValid_def pdf_signature_def)
  have h3: "isValidBuffer [0xA5, 0x50, 0x44, 0x46]"
    by (simp add: isValidBuffer_bytes pdf_signature_def)
  have h4: "storage pdf_only_world = Some [(''a.pdf'', [0x25, 0x50, 0x44, 0x46, 0x2D])]"
    by (simp add: pdf_only_world_def)
  have before: "list_all (\<lambda>entry. spec_isValid (snd entry)) (storage_files pdf_only_world)"
    by (simp add: storage_files_def pdf_only_world_def spec_isValid_def pdf_signature_def)
  have path: "fst (downloadPDF high_bit_env pdf_only_world ''https://example.org/x.pdf'' None False)
                = Inr ''/tmp/science_mcp_downloads/x.pdf''"
    by code_simp
  have files: "storage (snd (downloadPDF high_bit_env pdf_only_world ''https://example.org/x.pdf'' None False))
                 = Some [(''a.pdf'', [0x25, 0x50, 0x44, 0x46, 0x2D]), (''x.pdf'', [0xA5, 0x50, 0x44, 0x46])]"
    by code_simp
  from unsigned_download_is_kept [OF h1 h2 h3 h4, of None False]
  have "\<not> list_all (\<lambda>entry. spec_isValid (snd entry))
           (storage_files (snd (downloadPDF high_bit_env pdf_only_world ''https://example.org/x.pdf'' None False)))"
    by auto
  with h1 h2 h3 before path files show ?thesis by simp
qed


section \<open>Reading a page range\<close>


text \<open>A page number that \<open>getPage\<close> accepts is whole, so \<open>read_pages\<close> prints it as it is.\<close>

lemma getPage_whole:
  assumes "getPage doc pageNum = Inr items"
  shows "is_integer pageNum" and "pageNum = of_int \<lfloor>pageNum\<rfloor>"
proof -
  show w: "is_integer pageNum"
    using assms by (simp add: getPage_def split: if_splits)
  then show "pageNum = of_int \<lfloor>pageNum\<rfloor>" by (simp add: is_integer_def)
qed

text \<open>Reading the whole pages \<open>s\<close> to \<open>e\<close> when each of them can be read.\<close>

lemma read_pages_range:
  assumes "\<And>p. s \<le> p \<Longrightarrow> p \<le> e \<Longrightarrow> getPage doc (of_int p) = Inr (items p)"
  shows "read_pages doc (of_int s) (of_int e) textParts
           = Inr (textParts @ map (\<lambda>p. page_block p (items p)) [s..e])"
  using assms
proof (induction "nat (e + 1 - s)" arbitrary: s textParts)
  case 0
  then have "e < s" by simp
  then show ?case by (simp add: read_pages.simps)
next
  case (Suc d)
  then have le: "s \<le> e" by simp
  have gp: "getPage doc (of_int s) = Inr (items s)" using Suc.prems le by simp
  have "read_pages doc (of_int (s + 1)) (of_int e) (textParts @ [page_block s (items s)])
          = Inr ((textParts @ [page_block s (items s)])
                 @ map (\<lambda>p. page_block p (items p)) [s + 1..e])"
    using Suc.hyps(2) Suc.prems by (intro Suc.hyps(1)) auto
  then show ?case
    using le gp by (simp add: read_pages.simps [of doc "of_int s"] upto_rec1 [of s e])
qed



lemma demo_open: "open_pdf pdf_env demo_world demo_pdf_path = Inr demo_document"
  by (simp add: open_pdf_def existsSync_def readFileSync_def file_at_def storage_name_def
      pdf_env_def demo_env_def demo_world_def demo_pdf_path_def plain_name_def isValidBuffer_bytes
      pdf_signature_def)

lemma of_int_le_of_nat:
  assumes "p \<le> int n"
  shows "(of_int p :: number) \<le> of_nat n"
proof -
  from assms have "(of_int p :: number) \<le> of_int (int n)" by (simp only: of_int_le_iff)
  then show ?thesis by simp
qed

lemma getPage_readable:
  assumes "list_all (\<lambda>page. \<not> isl page) doc" and "1 \<le> p" and "p \<le> int (length doc)"
  shows "getPage doc (of_int p) = Inr (projr (doc ! nat (p - 1)))"
proof -
  have "nat (p - 1) < length doc" using assms(2,3) by simp
  with assms(1) have "\<not> isl (doc ! nat (p - 1))" by (simp add: list_all_length)
  moreover have "(of_int p :: number) \<le> of_nat (length doc)"
    by (rule of_int_le_of_nat [OF assms(3)])
  ultimately show ?thesis using assms(2) by (simp add: getPage_def is_integer_def)
qed

lemma readPDFText_range_text:
  assumes opened: "open_pdf env w filepath = Inr doc"
      and readable: "list_all (\<lambda>page. \<not> isl page) doc"
      and "1 \<le> s" and "s \<le> e" and "e \<le> int (length doc)"
  shows "readPDFText env w filepath (Some (of_int s)) (Some (of_int e))
           = Inr (page_range_text doc s e)"
proof -
  have d: "or_default (Some (of_int s)) 1 = of_int s"
          "or_default (Some (of_int e)) (of_nat (length doc)) = of_int e"
    using assms(3,4) by (simp_all add: or_default_def)
  have "(of_int e :: number) \<le> of_nat (length doc)"
    by (rule of_int_le_of_nat [OF assms(5)])
  then have m: "min (of_int e :: number) (of_nat (length doc)) = of_int e" by simp
  have "read_pages doc (of_int s) (of_int e) []
          = Inr ([] @ map (\<lambda>p. page_block p (projr (doc ! nat (p - 1)))) [s..e])"
    using assms(3,5) by (intro read_pages_range getPage_readable [OF readable]) auto
  then show ?thesis
    using opened d m by (simp add: readPDFText_def Let_def page_range_text_def)
qed



section \<open>Chunked reading\<close>

lemma div_less_iff_int:
  fixes a b c :: int
  assumes "0 < c"
  shows "(a < b div c) = ((a + 1) * c \<le> b)"
proof
  assume "a < b div c"
  then have "a + 1 \<le> b div c" by simp
  then have "(a + 1) * c \<le> (b div c) * c" using assms by (simp add: mult_right_mono)
  also have "\<dots> = b - b mod c" by (simp add: algebra_simps minus_mod_eq_mult_div)
  also have "\<dots> \<le> b" using assms by simp
  finally show "(a + 1) * c \<le> b" .
next
  assume h: "(a + 1) * c \<le> b"
  have "c * (b div c) + b mod c = b" by (rule mult_div_mod_eq)
  moreover have "b mod c < c" using assms by simp
  ultimately have "b < c * (b div c) + c" by linarith
  then have "b < (b div c + 1) * c" by (simp add: algebra_simps)
  with h have "(a + 1) * c < (b div c + 1) * c" by simp
  then have "a + 1 < b div c + 1" using assms by (simp add: mult_less_cancel_right_pos)
  then show "a < b div c" by simp
qed

lemma spec_start_le_iff:
  assumes "1 \<le> chunkSize"
  shows "(spec_startPage chunkSize k \<le> totalPages) = (k < chunk_count totalPages chunkSize)"
proof -
  have "(k < chunk_count totalPages chunkSize) = (int k < (totalPages + chunkSize - 1) div chunkSize)"
    by (auto simp: chunk_count_def)
  also have "\<dots> = ((int k + 1) * chunkSize \<le> totalPages + chunkSize - 1)"
    using assms by (simp add: div_less_iff_int)
  also have "\<dots> = (spec_startPage chunkSize k \<le> totalPages)"
    by (auto simp: spec_startPage_def algebra_simps)
  finally show ?thesis by simp
qed

text \<open>
  For a whole chunk size the ranges the handler reports are the ranges of the
  specification.
\<close>

lemma chunk_start_whole:
  "chunk_startPage (of_int chunkSize) k = of_int (spec_startPage chunkSize k)"
  by (simp add: chunk_startPage_def spec_startPage_def)

lemma chunk_end_whole:
  "chunk_endPage (of_int chunkSize) (of_int totalPages) k
     = of_int (spec_endPage chunkSize totalPages k)"
  by (simp add: chunk_endPage_def spec_endPage_def of_int_min)

lemma chunk_start_le_iff:
  assumes "1 \<le> chunkSize"
  shows "(chunk_startPage (of_int chunkSize) k \<le> of_int totalPages)
           = (k < chunk_count totalPages chunkSize)"
  using spec_start_le_iff [OF assms, of k totalPages] by (simp add: chunk_start_whole)

text \<open>The ranges the chunk loop reads are the ranges the handler reports, for every chunk size.\<close>

lemma chunk_end_eq:
  "min (chunk_startPage chunkSize k + chunkSize - 1) totalPages = chunk_endPage chunkSize totalPages k"
  by (simp add: chunk_startPage_def chunk_endPage_def algebra_simps)

lemma chunk_start_Suc:
  "chunk_startPage chunkSize k + chunkSize = chunk_startPage chunkSize (Suc k)"
  by (simp add: chunk_startPage_def algebra_simps)

lemma chunk_loop_stop:
  "\<not> startPage \<le> totalPages \<Longrightarrow>
   chunk_loop env w filepath totalPages chunkSize startPage chunks = Some (Inr chunks)"
  by (subst chunk_loop.simps) simp

lemma chunk_loop_step:
  "startPage \<le> totalPages \<Longrightarrow>
   endPage = min (startPage + chunkSize - 1) totalPages \<Longrightarrow>
   nextPage = startPage + chunkSize \<Longrightarrow>
   chunk_loop env w filepath totalPages chunkSize startPage chunks =
     (case readPDFText env w filepath (Some startPage) (Some endPage) of
        Inl e \<Rightarrow> Some (Inl e)
      | Inr chunkText \<Rightarrow>
          chunk_loop env w filepath totalPages chunkSize nextPage (chunks @ [chunkText]))"
  by (subst chunk_loop.simps) (simp add: Let_def split: sum.splits)

text \<open>
  With a whole chunk size of at least 1 the chunk loop ends, and it reads the chunks
  \<open>k, k + 1, \<dots>\<close> with the page ranges the handler attaches to them.
\<close>

lemma chunk_loop_reads:
  fixes c T :: int
  assumes cs: "1 \<le> c"
  shows "k \<le> chunk_count T c \<Longrightarrow>
         chunk_loop env w filepath (of_int T) (of_int c) (chunk_startPage (of_int c) k) chunks
           = Some (case read_chunks
                        (\<lambda>i. readPDFText env w filepath (Some (chunk_startPage (of_int c) i))
                               (Some (chunk_endPage (of_int c) (of_int T) i)))
                        [k..<chunk_count T c] of
                     Inl e \<Rightarrow> Inl e
                   | Inr texts \<Rightarrow> Inr (chunks @ texts))"
proof (induction "chunk_count T c - k" arbitrary: k chunks)
  case 0
  then have k: "k = chunk_count T c" by simp
  then have "\<not> chunk_startPage (of_int c) k \<le> of_int T"
    using chunk_start_le_iff [OF cs, of k T] by simp
  then show ?case using k by (simp add: chunk_loop_stop)
next
  case (Suc d)
  let ?n = "chunk_count T c"
  let ?rd = "\<lambda>i. readPDFText env w filepath (Some (chunk_startPage (of_int c) i))
                               (Some (chunk_endPage (of_int c) (of_int T) i))"
  from Suc.hyps(2) have lt: "k < ?n" by simp
  then have le: "chunk_startPage (of_int c) k \<le> of_int T"
    using chunk_start_le_iff [OF cs, of k T] by simp
  have idx: "[k..<?n] = k # [Suc k..<?n]" using lt by (simp add: upt_conv_Cons)
  have step: "chunk_loop env w filepath (of_int T) (of_int c) (chunk_startPage (of_int c) k) chunks
                = (case ?rd k of
                     Inl e \<Rightarrow> Some (Inl e)
                   | Inr chunkText \<Rightarrow>
                       chunk_loop env w filepath (of_int T) (of_int c)
                         (chunk_startPage (of_int c) (Suc k)) (chunks @ [chunkText]))"
    by (rule chunk_loop_step [OF le chunk_end_eq [symmetric] chunk_start_Suc [symmetric]])
  show ?case
  proof (cases "?rd k")
    case (Inl e)
    then show ?thesis
      using idx by (simp add: step)
  next
    case (Inr chunkText)
    have "chunk_loop env w filepath (of_int T) (of_int c) (chunk_startPage (of_int c) (Suc k))
            (chunks @ [chunkText])
          = Some (case read_chunks ?rd [Suc k..<?n] of
                    Inl e \<Rightarrow> Inl e
                  | Inr texts \<Rightarrow> Inr ((chunks @ [chunkText]) @ texts))"
      using Suc.hyps(2) lt by (intro Suc.hyps(1)) auto
    then show ?thesis
      using idx Inr by (simp add: step split: sum.splits)
  qed
qed

lemma read_chunks_Inr:
  "read_chunks rd is = Inr texts \<Longrightarrow>
   length texts = length is \<and> (\<forall>j < length is. rd (is ! j) = Inr (texts ! j))"
proof (induction "is" arbitrary: texts)
  case Nil
  then show ?case by simp
next
  case (Cons i rest)
  from Cons.prems obtain t ts where t: "rd i = Inr t" and ts: "read_chunks rd rest = Inr ts"
    and texts: "texts = t # ts"
    by (auto split: sum.splits)
  from Cons.IH [OF ts] have ih: "length ts = length rest" "\<And>j. j < length rest \<Longrightarrow> rd (rest ! j) = Inr (ts ! j)"
    by auto
  show ?case
  proof (intro conjI allI impI)
    show "length texts = length (i # rest)" using texts ih(1) by simp
    fix j assume "j < length (i # rest)"
    then show "rd ((i # rest) ! j) = Inr (texts ! j)"
      using t texts ih(2) by (cases j) auto
  qed
qed

lemma read_chunks_all_Inr:
  "(\<And>i. i \<in> set is \<Longrightarrow> \<exists>t. rd i = Inr t) \<Longrightarrow> \<exists>texts. read_chunks rd is = Inr texts"
proof (induction "is")
  case Nil
  then show ?case by simp
next
  case (Cons i rest)
  then obtain t where "rd i = Inr t" by auto
  moreover from Cons obtain ts where "read_chunks rd rest = Inr ts" by auto
  ultimately show ?case by simp
qed

lemma chunk_range_bounds:
  assumes cs: "1 \<le> chunkSize" and i: "i < chunk_count totalPages chunkSize"
  shows "1 \<le> spec_startPage chunkSize i"
    and "spec_startPage chunkSize i \<le> spec_endPage chunkSize totalPages i"
    and "spec_endPage chunkSize totalPages i \<le> totalPages"
    and "spec_endPage chunkSize totalPages i - spec_startPage chunkSize i + 1 \<le> chunkSize"
proof -
  have le: "spec_startPage chunkSize i \<le> totalPages"
    using spec_start_le_iff [OF cs, of i totalPages] i by simp
  have nn: "0 \<le> int i * chunkSize" using cs by simp
  show "1 \<le> spec_startPage chunkSize i" using nn by (simp add: spec_startPage_def)
  show "spec_startPage chunkSize i \<le> spec_endPage chunkSize totalPages i"
    using le cs by (simp add: spec_startPage_def spec_endPage_def algebra_simps)
  show "spec_endPage chunkSize totalPages i \<le> totalPages"
    by (simp add: spec_endPage_def)
  show "spec_endPage chunkSize totalPages i - spec_startPage chunkSize i + 1 \<le> chunkSize"
    by (simp add: spec_startPage_def spec_endPage_def algebra_simps)
qed

lemma chunk_full:
  assumes cs: "1 \<le> chunkSize" and i: "Suc i < chunk_count totalPages chunkSize"
  shows "spec_endPage chunkSize totalPages i = (int i + 1) * chunkSize"
    and "spec_endPage chunkSize totalPages i - spec_startPage chunkSize i + 1 = chunkSize"
    and "spec_startPage chunkSize (Suc i) = spec_endPage chunkSize totalPages i + 1"
proof -
  have "spec_startPage chunkSize (Suc i) \<le> totalPages"
    using spec_start_le_iff [OF cs, of "Suc i" totalPages] i by simp
  then have "(int i + 1) * chunkSize \<le> totalPages"
    by (simp add: spec_startPage_def algebra_simps)
  then show e: "spec_endPage chunkSize totalPages i = (int i + 1) * chunkSize"
    by (simp add: spec_endPage_def)
  show "spec_endPage chunkSize totalPages i - spec_startPage chunkSize i + 1 = chunkSize"
    unfolding e by (simp add: spec_startPage_def algebra_simps)
  show "spec_startPage chunkSize (Suc i) = spec_endPage chunkSize totalPages i + 1"
    unfolding e by (simp add: spec_startPage_def algebra_simps)
qed

lemma chunk_ranges_prefix:
  assumes cs: "1 \<le> chunkSize" and tp: "0 \<le> totalPages"
  shows "k \<le> chunk_count totalPages chunkSize \<Longrightarrow>
         concat (map (\<lambda>i. [spec_startPage chunkSize i..spec_endPage chunkSize totalPages i]) [0..<k])
           = [1..min (int k * chunkSize) totalPages]"
proof (induction k)
  case 0
  then show ?case using tp by simp
next
  case (Suc k)
  then have lt: "k < chunk_count totalPages chunkSize" by simp
  then have le: "spec_startPage chunkSize k \<le> totalPages"
    using spec_start_le_iff [OF cs, of k totalPages] by simp
  then have m: "min (int k * chunkSize) totalPages = int k * chunkSize"
    by (simp add: spec_startPage_def)
  have e: "spec_endPage chunkSize totalPages k = min (int (Suc k) * chunkSize) totalPages"
    by (simp add: spec_endPage_def algebra_simps)
  have s: "spec_startPage chunkSize k = int k * chunkSize + 1"
    by (simp add: spec_startPage_def)
  have ih: "concat (map (\<lambda>i. [spec_startPage chunkSize i..spec_endPage chunkSize totalPages i]) [0..<k])
              = [1..int k * chunkSize]"
    using Suc.IH lt m by simp
  have nn: "0 \<le> int k * chunkSize" using cs by simp
  have up: "int k * chunkSize \<le> min (int (Suc k) * chunkSize) totalPages"
    using le cs by (simp add: spec_startPage_def algebra_simps)
  have "[1..min (int (Suc k) * chunkSize) totalPages]
          = [1..int k * chunkSize] @ [int k * chunkSize + 1..min (int (Suc k) * chunkSize) totalPages]"
  proof (cases "k = 0")
    case True
    then show ?thesis by simp
  next
    case False
    then have "1 * 1 \<le> int k * chunkSize" using cs by (intro mult_mono) auto
    then have "1 \<le> int k * chunkSize" by simp
    from upto_split2 [OF this up] show ?thesis .
  qed
  then show ?case using ih e s by simp
qed

lemma chunk_ranges_cover:
  assumes cs: "1 \<le> chunkSize" and tp: "0 \<le> totalPages"
  shows "concat (map (\<lambda>i. [spec_startPage chunkSize i..spec_endPage chunkSize totalPages i])
                  [0..<chunk_count totalPages chunkSize])
           = [1..totalPages]"
proof -
  let ?n = "chunk_count totalPages chunkSize"
  have "\<not> spec_startPage chunkSize ?n \<le> totalPages"
    using spec_start_le_iff [OF cs, of ?n totalPages] by simp
  then have "min (int ?n * chunkSize) totalPages = totalPages"
    by (simp add: spec_startPage_def)
  with chunk_ranges_prefix [OF cs tp, of ?n] show ?thesis by simp
qed

lemma readPDFTextChunked_reads:
  fixes c :: int
  assumes opened: "open_pdf env w filepath = Inr doc"
      and pages: "1 \<le> length doc"
      and cs: "1 \<le> c"
  shows "readPDFTextChunked env w filepath (of_int c)
           = Some (case read_chunks
                         (\<lambda>i. readPDFText env w filepath (Some (chunk_startPage (of_int c) i))
                                (Some (chunk_endPage (of_int c) (of_nat (length doc)) i)))
                         [0..<chunk_count (int (length doc)) c] of
                     Inl e \<Rightarrow> Inl (JsError (''Failed to read PDF in chunks: '' @ error_message e))
                   | Inr texts \<Rightarrow> Inr (texts, of_nat (length doc)))"
proof -
  have one: "chunk_startPage (of_int c) 0 = 1" by (simp add: chunk_startPage_def)
  have nz: "doc \<noteq> []" using pages by auto
  have loop: "chunk_loop env w filepath (of_nat (length doc)) (of_int c) 1 []
                = Some (case read_chunks
                              (\<lambda>i. readPDFText env w filepath (Some (chunk_startPage (of_int c) i))
                                     (Some (chunk_endPage (of_int c) (of_nat (length doc)) i)))
                              [0..<chunk_count (int (length doc)) c] of
                          Inl e \<Rightarrow> Inl e
                        | Inr texts \<Rightarrow> Inr texts)"
    using chunk_loop_reads [OF cs, of 0 "int (length doc)" env w filepath "[]"]
    by (simp add: one cong: sum.case_cong)
  show ?thesis
    using opened nz by (simp add: readPDFTextChunked_def Let_def loop split: sum.splits)
qed

text \<open>
  C6, for whole chunk sizes. For a PDF that loads with at least one page and a whole
  chunk size \<open>c\<close> of at least 1, \<open>readPDFTextChunked\<close> returns; it succeeds when
  every page can be read; and when it succeeds the chunks partition the pages
  exactly: there are \<open>chunk_count totalPages c\<close> chunks; the range the handler
  reports for chunk \<open>i\<close> is the range of the specification, from \<open>i * c + 1\<close> to
  \<open>min ((i + 1) * c) totalPages\<close>; chunk \<open>i\<close> is what \<open>readPDFText\<close> returns for
  this range (the text of exactly these pages when all pages can be read); the
  ranges in order concatenate to \<open>[1..totalPages]\<close>; each range starts one page
  after the previous one ends; and every chunk spans exactly \<open>c\<close> pages except
  possibly the last, which spans at most that.
\<close>

theorem chunks_partition_pages:
  fixes c :: int
  assumes opened: "open_pdf env w filepath = Inr pdfDocument"
      and pages: "1 \<le> length pdfDocument"
      and cs: "1 \<le> c"
  shows "\<exists>outcome.
           readPDFTextChunked env w filepath (of_int c) = Some outcome
         \<and> (list_all (\<lambda>page. \<not> isl page) pdfDocument \<longrightarrow> \<not> isl outcome)
         \<and> (\<forall>chunks totalPages. outcome = Inr (chunks, totalPages) \<longrightarrow>
               totalPages = of_nat (length pdfDocument)
             \<and> length chunks = chunk_count (int (length pdfDocument)) c
             \<and> concat (map (\<lambda>i. [spec_startPage c i..spec_endPage c (int (length pdfDocument)) i])
                         [0..<length chunks]) = [1..int (length pdfDocument)]
             \<and> (\<forall>i < length chunks.
                   chunk_startPage (of_int c) i = of_int (spec_startPage c i)
                 \<and> chunk_endPage (of_int c) totalPages i
                     = of_int (spec_endPage c (int (length pdfDocument)) i)
                 \<and> readPDFText env w filepath (Some (chunk_startPage (of_int c) i))
                       (Some (chunk_endPage (of_int c) totalPages i)) = Inr (chunks ! i)
                 \<and> (list_all (\<lambda>page. \<not> isl page) pdfDocument \<longrightarrow>
                      chunks ! i = page_range_text pdfDocument (spec_startPage c i)
                                     (spec_endPage c (int (length pdfDocument)) i))
                 \<and> 1 \<le> spec_startPage c i
                 \<and> spec_startPage c i \<le> spec_endPage c (int (length pdfDocument)) i
                 \<and> spec_endPage c (int (length pdfDocument)) i \<le> int (length pdfDocument)
                 \<and> spec_endPage c (int (length pdfDocument)) i - spec_startPage c i + 1 \<le> c
                 \<and> (Suc i < length chunks \<longrightarrow>
                      spec_endPage c (int (length pdfDocument)) i - spec_startPage c i + 1 = c
                    \<and> spec_startPage c (Suc i) = spec_endPage c (int (length pdfDocument)) i + 1)))"
proof -
  let ?T = "int (length pdfDocument)"
  let ?TT = "of_nat (length pdfDocument) :: number"
  let ?n = "chunk_count ?T c"
  let ?rd = "\<lambda>i. readPDFText env w filepath (Some (chunk_startPage (of_int c) i))
                                (Some (chunk_endPage (of_int c) ?TT i))"
  let ?outcome = "case read_chunks ?rd [0..<?n] of
                     Inl e \<Rightarrow> Inl (JsError (''Failed to read PDF in chunks: '' @ error_message e))
                   | Inr texts \<Rightarrow> Inr (texts, ?TT)"
  have res: "readPDFTextChunked env w filepath (of_int c) = Some ?outcome"
    by (rule readPDFTextChunked_reads [OF opened pages cs])
  have st: "chunk_startPage (of_int c) i = of_int (spec_startPage c i)" for i
    by (rule chunk_start_whole)
  have en: "chunk_endPage (of_int c) ?TT i = of_int (spec_endPage c ?T i)" for i
    using chunk_end_whole [of c ?T i] by simp
  have rng: "?rd i = Inr (page_range_text pdfDocument (spec_startPage c i) (spec_endPage c ?T i))"
    if "list_all (\<lambda>page. \<not> isl page) pdfDocument" "i < ?n" for i
    unfolding st en
    using chunk_range_bounds [OF cs that(2)]
    by (intro readPDFText_range_text [OF opened that(1)]) auto
  have all_ok: "\<not> isl ?outcome" if r: "list_all (\<lambda>page. \<not> isl page) pdfDocument"
  proof -
    have "\<exists>texts. read_chunks ?rd [0..<?n] = Inr texts"
      using rng [OF r] by (intro read_chunks_all_Inr) auto
    then show ?thesis by auto
  qed
  have props: "totalPages = ?TT
             \<and> length chunks = ?n
             \<and> concat (map (\<lambda>i. [spec_startPage c i..spec_endPage c ?T i])
                         [0..<length chunks]) = [1..?T]
             \<and> (\<forall>i < length chunks.
                   chunk_startPage (of_int c) i = of_int (spec_startPage c i)
                 \<and> chunk_endPage (of_int c) totalPages i = of_int (spec_endPage c ?T i)
                 \<and> readPDFText env w filepath (Some (chunk_startPage (of_int c) i))
                       (Some (chunk_endPage (of_int c) totalPages i)) = Inr (chunks ! i)
                 \<and> (list_all (\<lambda>page. \<not> isl page) pdfDocument \<longrightarrow>
                      chunks ! i = page_range_text pdfDocument (spec_startPage c i)
                                     (spec_endPage c ?T i))
                 \<and> 1 \<le> spec_startPage c i
                 \<and> spec_startPage c i \<le> spec_endPage c ?T i
                 \<and> spec_endPage c ?T i \<le> ?T
                 \<and> spec_endPage c ?T i - spec_startPage c i + 1 \<le> c
                 \<and> (Suc i < length chunks \<longrightarrow>
                      spec_endPage c ?T i - spec_startPage c i + 1 = c
                    \<and> spec_startPage c (Suc i) = spec_endPage c ?T i + 1))"
    if out: "?outcome = Inr (chunks, totalPages)" for chunks totalPages
  proof -
    from out have rc: "read_chunks ?rd [0..<?n] = Inr chunks" and T: "totalPages = ?TT"
      by (auto split: sum.splits)
    from read_chunks_Inr [OF rc] have len: "length chunks = ?n"
      and nth: "\<And>j. j < ?n \<Longrightarrow> ?rd j = Inr (chunks ! j)"
      by auto
    have cover: "concat (map (\<lambda>i. [spec_startPage c i..spec_endPage c ?T i]) [0..<?n]) = [1..?T]"
      by (rule chunk_ranges_cover [OF cs]) simp
    show ?thesis
      unfolding T len
    proof (intro conjI allI impI)
      show "?TT = ?TT" by simp
      show "?n = ?n" by simp
      show "concat (map (\<lambda>i. [spec_startPage c i..spec_endPage c ?T i]) [0..<?n]) = [1..?T]"
        by (rule cover)
    next
      fix i assume i: "i < ?n"
      show "chunk_startPage (of_int c) i = of_int (spec_startPage c i)" by (rule st)
      show "chunk_endPage (of_int c) ?TT i = of_int (spec_endPage c ?T i)" by (rule en)
      show "?rd i = Inr (chunks ! i)" by (rule nth [OF i])
      show "1 \<le> spec_startPage c i"
        "spec_startPage c i \<le> spec_endPage c ?T i"
        "spec_endPage c ?T i \<le> ?T"
        "spec_endPage c ?T i - spec_startPage c i + 1 \<le> c"
        using chunk_range_bounds [OF cs i] by auto
      {
        assume "list_all (\<lambda>page. \<not> isl page) pdfDocument"
        from rng [OF this i] nth [OF i]
        show "chunks ! i = page_range_text pdfDocument (spec_startPage c i) (spec_endPage c ?T i)"
          by simp
      }
      {
        assume "Suc i < ?n"
        from chunk_full [OF cs this]
        show "spec_endPage c ?T i - spec_startPage c i + 1 = c"
          "spec_startPage c (Suc i) = spec_endPage c ?T i + 1"
          by auto
      }
    qed
  qed
  show ?thesis
    using res all_ok props by (intro exI [of _ ?outcome]) blast
qed

theorem chunks_partition_pages_witness:
  "open_pdf pdf_env demo_world demo_pdf_path = Inr demo_document
   \<and> 1 \<le> length demo_document \<and> (1::int) \<le> 2
   \<and> (\<exists>chunks. readPDFTextChunked pdf_env demo_world demo_pdf_path 2 = Some (Inr (chunks, 3))
          \<and> length chunks = 2
          \<and> chunks ! 0 = page_range_text demo_document 1 2
          \<and> chunks ! 1 = page_range_text demo_document 3 3)"
proof -
  have h2: "1 \<le> length demo_document" by (simp add: demo_document_def)
  have h3: "(1::int) \<le> 2" by simp
  have r: "list_all (\<lambda>page. \<not> isl page) demo_document" by (simp add: demo_document_def)
  have len: "length demo_document = 3" by (simp add: demo_document_def)
  have cc: "chunk_count 3 2 = 2" by (simp add: chunk_count_def)
  from chunks_partition_pages [OF demo_open h2 h3] r obtain outcome where
    res: "readPDFTextChunked pdf_env demo_world demo_pdf_path (of_int 2) = Some outcome" and
    ok: "\<not> isl outcome" and
    props: "\<And>chunks totalPages. outcome = Inr (chunks, totalPages) \<Longrightarrow>
              totalPages = of_nat (length demo_document)
            \<and> length chunks = chunk_count (int (length demo_document)) 2
            \<and> (\<forall>i < length chunks.
                  chunks ! i = page_range_text demo_document (spec_startPage 2 i)
                                 (spec_endPage 2 (int (length demo_document)) i))"
    by blast
  from ok obtain chunks totalPages where out: "outcome = Inr (chunks, totalPages)"
    by (cases outcome) auto
  from props [OF out] len cc have T: "totalPages = 3" and L: "length chunks = 2"
    and N: "\<And>i. i < 2 \<Longrightarrow> chunks ! i = page_range_text demo_document (spec_startPage 2 i)
                                 (spec_endPage 2 3 i)"
    by auto
  have "chunks ! 0 = page_range_text demo_document 1 2"
    using N [of 0] by (simp add: spec_startPage_def spec_endPage_def)
  moreover have "chunks ! 1 = page_range_text demo_document 3 3"
    using N [of 1] by (simp add: spec_startPage_def spec_endPage_def)
  ultimately show ?thesis using demo_open h2 res out T L by auto
qed

lemma two_page_open: "open_pdf two_page_env demo_world demo_pdf_path = Inr two_page_document"
  by (simp add: open_pdf_def existsSync_def readFileSync_def file_at_def storage_name_def
      two_page_env_def demo_env_def demo_world_def demo_pdf_path_def plain_name_def
      isValidBuffer_bytes pdf_signature_def)

lemma two_page_first:
  "readPDFText two_page_env demo_world demo_pdf_path (Some 1) (Some (3/2))
     = Inr (page_range_text two_page_document 1 1)"
proof -
  have gp: "getPage two_page_document 1 = Inr [TextItem ''One'' (Some 700)]"
    by (simp add: getPage_def is_integer_def two_page_document_def)
  have "read_pages two_page_document 1 (3/2) []
          = Inr [page_block 1 [TextItem ''One'' (Some 700)]]"
    by (simp add: read_pages.simps [of _ 1] read_pages.simps [of _ 2] gp)
  then show ?thesis
    using two_page_open
    by (simp add: readPDFText_def Let_def or_default_def two_page_document_def
        page_range_text_def)
qed

text \<open>
  The claim as stated, for every chunk size of at least 1, fails at the chunk size
  \<open>3/2\<close> on a two-page document, all of whose pages can be read. The first chunk is
  read with the range from 1 to \<open>min (1 + 3/2 - 1) 2 = 3/2\<close>, so it holds page 1
  only; the next start page is \<open>5/2\<close>, beyond the last page, so the loop ends. The
  read succeeds with one chunk, the handler reports the range from 1 to \<open>3/2\<close> for
  it, and page 2 is in no chunk: the chunks do not reconstruct the pages 1 to 2.
\<close>

theorem chunks_partition_pages_counterexample:
  "open_pdf two_page_env demo_world demo_pdf_path = Inr two_page_document
   \<and> list_all (\<lambda>page. \<not> isl page) two_page_document
   \<and> 1 \<le> length two_page_document \<and> (1::number) \<le> 3/2
   \<and> readPDFTextChunked two_page_env demo_world demo_pdf_path (3/2)
       = Some (Inr ([page_range_text two_page_document 1 1], 2))
   \<and> chunk_startPage (3/2) 0 = 1 \<and> chunk_endPage (3/2) 2 0 = 3/2
   \<and> \<not> is_integer (chunk_endPage (3/2) 2 0)
   \<and> page_range_text two_page_document 1 1 \<noteq> page_range_text two_page_document 1 2"
proof -
  have loop: "chunk_loop two_page_env demo_world demo_pdf_path 2 (3/2) 1 []
                = Some (Inr [page_range_text two_page_document 1 1])"
    by (simp add: chunk_loop_step [where endPage = "3/2" and nextPage = "5/2"] two_page_first
        chunk_loop_stop)
  have res: "readPDFTextChunked two_page_env demo_world demo_pdf_path (3/2)
               = Some (Inr ([page_range_text two_page_document 1 1], 2))"
    using two_page_open loop by (simp add: readPDFTextChunked_def Let_def two_page_document_def)
  have half: "\<lfloor>3/2 :: number\<rfloor> = 1" by (simp add: floor_eq_iff)
  have ni: "\<not> is_integer (chunk_endPage (3/2) 2 0)"
    by (simp add: chunk_endPage_def is_integer_def half)
  have differ: "page_range_text two_page_document 1 1 \<noteq> page_range_text two_page_document 1 2"
    by code_simp
  show ?thesis
    using two_page_open res ni differ
    by (simp add: two_page_document_def chunk_startPage_def chunk_endPage_def)
qed

section \<open>The shrink-and-retry loop of the chunked read\<close>

lemma fit_chunks_fits:
  assumes "0 < currentChunkSize" and "attempt_fits env w filepath currentChunkSize"
  shows "\<exists>chunks totalPages.
           readPDFTextChunked env w filepath currentChunkSize = Some (Inr (chunks, totalPages))
         \<and> fit_chunks env w filepath currentChunkSize
             = Some (Inr (json_stringify env (chunked_response filepath totalPages currentChunkSize chunks)))
         \<and> length (json_stringify env (chunked_response filepath totalPages currentChunkSize chunks))
             \<le> 4 * maxTokens"
  using assms
  by (subst fit_chunks.simps)
     (auto simp: attempt_fits_def Let_def split: option.splits sum.splits)

lemma fit_chunks_retry:
  assumes "0 < currentChunkSize" and "\<not> attempt_fits env w filepath currentChunkSize"
  shows "fit_chunks env w filepath currentChunkSize
           = (case readPDFTextChunked env w filepath currentChunkSize of
                None \<Rightarrow> None
              | Some r \<Rightarrow> fit_chunks env w filepath (max 1 (of_int \<lfloor>currentChunkSize / 2\<rfloor>)))"
  using assms
  by (subst fit_chunks.simps)
     (auto simp: attempt_fits_def Let_def split: option.splits sum.splits)

lemma fit_chunks_fallback:
  assumes "currentChunkSize \<le> 0"
  shows "fit_chunks env w filepath currentChunkSize
           = (case readPDFText env w filepath (Some 1) (Some 1) of
                Inl e \<Rightarrow> Some (Inl e)
              | Inr text \<Rightarrow> Some (Inr (json_stringify env (first_page_response filepath text))))"
  using assms by (subst fit_chunks.simps) simp

lemma halved_size:
  fixes k :: number
  assumes "0 < k" and "k \<le> max 1 c0"
  shows "0 < max 1 (of_int \<lfloor>k / 2\<rfloor> :: number)" and "max 1 (of_int \<lfloor>k / 2\<rfloor>) \<le> max 1 c0"
proof -
  show "0 < max 1 (of_int \<lfloor>k / 2\<rfloor> :: number)" by simp
  have "(of_int \<lfloor>k / 2\<rfloor> :: number) \<le> k / 2" by (rule of_int_floor_le)
  also have "\<dots> \<le> k" using assms(1) by simp
  finally have "(of_int \<lfloor>k / 2\<rfloor> :: number) \<le> max 1 c0" using assms(2) by simp
  then show "max 1 (of_int \<lfloor>k / 2\<rfloor>) \<le> max 1 c0" by simp
qed

text \<open>
  When no attempt from the starting size downwards fits, the loop never ends: the
  size stays at 1 or above because of \<open>Math.max(1, \<dots>)\<close>, and the code after the
  loop is not reached.
\<close>

lemma fit_chunks_no_return:
  assumes never: "\<And>cs. 0 < cs \<Longrightarrow> cs \<le> max 1 c0 \<Longrightarrow> \<not> attempt_fits env w filepath cs"
      and ret: "fit_chunks env' w' filepath' c = Some y"
  shows "\<not> (env' = env \<and> w' = w \<and> filepath' = filepath \<and> 0 < c \<and> c \<le> max 1 c0)"
proof (rule fit_chunks.raw_induct
    [where P = "\<lambda>e v p k r. \<not> (e = env \<and> v = w \<and> p = filepath \<and> 0 < k \<and> k \<le> max 1 c0)", OF _ ret])
  fix f :: "env \<Rightarrow> world \<Rightarrow> string \<Rightarrow> number \<Rightarrow> (js_exn + string) option"
  fix e v p k r
  assume IH: "\<And>e v p k r. f e v p k = Some r \<Longrightarrow>
                \<not> (e = env \<and> v = w \<and> p = filepath \<and> 0 < k \<and> k \<le> max 1 c0)"
  assume step:
    "(if 0 < k
      then (case readPDFTextChunked e v p k of
              None \<Rightarrow> None
            | Some (Inl error) \<Rightarrow> f e v p (max 1 (of_int \<lfloor>k / 2\<rfloor>))
            | Some (Inr result) \<Rightarrow>
                (let responseText =
                       json_stringify e (chunked_response p (snd result) k (fst result))
                 in if length responseText \<le> 4 * maxTokens then Some (Inr responseText)
                    else f e v p (max 1 (of_int \<lfloor>k / 2\<rfloor>))))
      else (case readPDFText e v p (Some 1) (Some 1) of
              Inl e \<Rightarrow> Some (Inl e)
            | Inr text \<Rightarrow> Some (Inr (json_stringify e (first_page_response p text))))) = Some r"
  show "\<not> (e = env \<and> v = w \<and> p = filepath \<and> 0 < k \<and> k \<le> max 1 c0)"
  proof
    assume a: "e = env \<and> v = w \<and> p = filepath \<and> 0 < k \<and> k \<le> max 1 c0"
    then have nf: "\<not> attempt_fits env w filepath k" using never by simp
    from a have k: "0 < k" "k \<le> max 1 c0" by simp_all
    from step a nf have "f env w filepath (max 1 (of_int \<lfloor>k / 2\<rfloor>)) = Some r"
      by (auto simp: attempt_fits_def Let_def split: option.splits sum.splits if_splits)
    from IH [OF this] halved_size [OF k] show False by blast
  qed
qed

lemma fit_chunks_diverges:
  assumes never: "\<And>cs. 0 < cs \<Longrightarrow> cs \<le> max 1 c0 \<Longrightarrow> \<not> attempt_fits env w filepath cs"
      and start: "0 < c0"
  shows "fit_chunks env w filepath c0 = None"
proof (rule ccontr)
  assume "fit_chunks env w filepath c0 \<noteq> None"
  then obtain y where ret: "fit_chunks env w filepath c0 = Some y" by auto
  from fit_chunks_no_return [of c0 env w filepath, OF never ret] start show False by simp
qed

text \<open>In particular the loop never ends when every serialized response is over the budget.\<close>

lemma fit_chunks_over_budget:
  assumes "\<And>v. 4 * maxTokens < length (json_stringify env v)" and "0 < c0"
  shows "fit_chunks env w filepath c0 = None"
proof (rule fit_chunks_diverges [OF _ assms(2)])
  fix cs :: number
  show "\<not> attempt_fits env w filepath cs"
  proof
    assume "attempt_fits env w filepath cs"
    then obtain result where
      "length (json_stringify env (chunked_response filepath (snd result) cs (fst result)))
         \<le> 4 * maxTokens"
      by (auto simp: attempt_fits_def split: option.splits sum.splits)
    with assms(1) [of "chunked_response filepath (snd result) cs (fst result)"]
    show False by simp
  qed
qed

text \<open>No attempt fits when the file does not exist: the chunked read throws.\<close>

lemma missing_never_fits:
  "\<not> existsSync env w filepath \<Longrightarrow> \<not> attempt_fits env w filepath cs"
  by (simp add: attempt_fits_def readPDFTextChunked_def open_pdf_def)

lemma missing_file_never_fits:
  "\<not> attempt_fits demo_env demo_world ''/tmp/missing.pdf'' cs"
  by (simp add: attempt_fits_def readPDFTextChunked_def open_pdf_def existsSync_def file_at_def
      storage_name_def demo_env_def demo_world_def plain_name_def)

text \<open>
  C1. The claim: for every file path and chunk size the shrink-and-retry loop ends,
  in a chunk set within the budget or in the truncated first page. For a file that
  does not exist and the chunk size 10 the loop starts at 2, every attempt throws,
  and the size goes 2, 1, 1, 1, \<dots>: the call never returns. The same happens
  whenever no attempt from the starting size downwards fits
  (\<open>fit_chunks_diverges\<close>). The code after the loop is reached only when the
  starting size is 0 or less (\<open>fit_chunks_fallback\<close>).
\<close>

theorem chunked_read_missing_file_never_returns:
  "handle_call demo_env demo_world ''read_pdf_text'' missing_file_args = None"
proof -
  have "fit_chunks demo_env demo_world ''/tmp/missing.pdf'' 2 = None"
    by (rule fit_chunks_diverges) (simp_all add: missing_file_never_fits)
  then show ?thesis
    by (simp add: handle_call_def tool_switch_def read_pdf_text_def missing_file_args_def
        with_default_def)
qed

section \<open>The tool-call boundary\<close>

text \<open>
  Whenever the handler returns, the outcome is a response with exactly one text
  item, never a rejection: an error response with the text \<open>Error: \<close> followed by
  the message exactly when the \<open>switch\<close> threw, and the serialized payload
  otherwise. Every call other than a chunked read returns, and an unknown tool name
  gives the error response \<open>Error: Unknown tool: name\<close>.
\<close>

lemma handle_call_returned:
  "(\<forall>outcome w'. handle_call env w name args = Some (outcome, w') \<longrightarrow>
      (\<exists>response. outcome = Inr response \<and> length (content response) = 1
         \<and> (isError response \<longrightarrow>
              (\<exists>error. tool_switch env w name args = Some (Inl error, w')
                     \<and> content response = [''Error: '' @ error_message error]))
         \<and> (\<not> isError response \<longrightarrow>
              (\<exists>text. tool_switch env w name args = Some (Inr text, w')
                     \<and> content response = [text]))))
   \<and> (name \<noteq> ''read_pdf_text'' \<or> \<not> with_default (arg_chunked args) False \<longrightarrow>
        (\<exists>outcome w'. handle_call env w name args = Some (outcome, w')))
   \<and> (name \<notin> set tool_names \<longrightarrow>
        handle_call env w name args
          = Some (Inr \<lparr>content = [''Error: Unknown tool: '' @ name], isError = True\<rparr>, w))"
proof (intro conjI allI impI)
  fix outcome w'
  assume "handle_call env w name args = Some (outcome, w')"
  then show "\<exists>response. outcome = Inr response \<and> length (content response) = 1
         \<and> (isError response \<longrightarrow>
              (\<exists>error. tool_switch env w name args = Some (Inl error, w')
                     \<and> content response = [''Error: '' @ error_message error]))
         \<and> (\<not> isError response \<longrightarrow>
              (\<exists>text. tool_switch env w name args = Some (Inr text, w')
                     \<and> content response = [text]))"
    by (auto simp: handle_call_def split: option.splits sum.splits prod.splits)
next
  assume "name \<noteq> ''read_pdf_text'' \<or> \<not> with_default (arg_chunked args) False"
  then have "\<exists>r. tool_switch env w name args = Some r"
    by (auto simp: tool_switch_def read_pdf_text_def)
  then show "\<exists>outcome w'. handle_call env w name args = Some (outcome, w')"
    by (auto simp: handle_call_def split: option.splits sum.splits prod.splits)
next
  assume "name \<notin> set tool_names"
  then have "tool_switch env w name args = Some (Inl (JsError (''Unknown tool: '' @ name)), w)"
    by (simp add: tool_switch_def tool_names_def)
  then show "handle_call env w name args
          = Some (Inr \<lparr>content = [''Error: Unknown tool: '' @ name], isError = True\<rparr>, w)"
    by (simp add: handle_call_def)
qed

text \<open>
  C7. The claim: for every tool and all arguments, every failure is caught and
  converted to an error response. For \<open>read_pdf_text\<close> with \<open>chunked: true\<close>, a
  positive chunk size (or none, which means 10) and a file that does not exist, in
  any environment and any world, the failure "PDF file not found" is caught inside
  the shrink-and-retry loop, which then never ends: the handler does not return
  (the value \<open>None\<close>), so no error response is ever produced. The same read without
  \<open>chunked\<close> does convert the failure: it returns the error response
  \<open>Error: Failed to get PDF page count: PDF file not found: \<dots>\<close>.
\<close>

theorem chunked_read_failure_not_converted:
  assumes missing: "\<not> existsSync env w (arg_filepath args)"
      and chunked: "arg_chunked args = Some True"
      and size: "0 < with_default (arg_chunkSize args) 10"
  shows "handle_call env w ''read_pdf_text'' args = None
       \<and> handle_call env w ''read_pdf_text'' (args\<lparr>arg_chunked := Some False\<rparr>)
           = Some (Inr \<lparr>content = [''Error: Failed to get PDF page count: PDF file not found: ''
                                     @ arg_filepath args],
                        isError = True\<rparr>, w)
       \<and> handle_call env w ''read_pdf_text'' (args\<lparr>arg_chunked := None\<rparr>)
           = Some (Inr \<lparr>content = [''Error: Failed to get PDF page count: PDF file not found: ''
                                     @ arg_filepath args],
                        isError = True\<rparr>, w)"
proof (intro conjI)
  have "0 < min (with_default (arg_chunkSize args) 10) 2" using size by simp
  then have "fit_chunks env w (arg_filepath args) (min (with_default (arg_chunkSize args) 10) 2) = None"
    by (intro fit_chunks_diverges missing_never_fits [OF missing])
  then show "handle_call env w ''read_pdf_text'' args = None"
    using chunked by (simp add: handle_call_def tool_switch_def read_pdf_text_def with_default_def)
  show "handle_call env w ''read_pdf_text'' (args\<lparr>arg_chunked := Some False\<rparr>)
           = Some (Inr \<lparr>content = [''Error: Failed to get PDF page count: PDF file not found: ''
                                     @ arg_filepath args],
                        isError = True\<rparr>, w)"
    using missing
    by (simp add: handle_call_def tool_switch_def read_pdf_text_def with_default_def
        read_pdf_text_plain_def getPDFPageCount_def open_pdf_def)
  show "handle_call env w ''read_pdf_text'' (args\<lparr>arg_chunked := None\<rparr>)
           = Some (Inr \<lparr>content = [''Error: Failed to get PDF page count: PDF file not found: ''
                                     @ arg_filepath args],
                        isError = True\<rparr>, w)"
    using missing
    by (simp add: handle_call_def tool_switch_def read_pdf_text_def with_default_def
        read_pdf_text_plain_def getPDFPageCount_def open_pdf_def)
qed

theorem chunked_read_failure_not_converted_witness:
  "\<not> existsSync demo_env demo_world (arg_filepath (missing_file_args\<lparr>arg_chunkSize := Some (3/2)\<rparr>))
   \<and> arg_chunked (missing_file_args\<lparr>arg_chunkSize := Some (3/2)\<rparr>) = Some True
   \<and> (0::number) < with_default (arg_chunkSize (missing_file_args\<lparr>arg_chunkSize := Some (3/2)\<rparr>)) 10
   \<and> handle_call demo_env demo_world ''read_pdf_text'' (missing_file_args\<lparr>arg_chunkSize := Some (3/2)\<rparr>)
       = None
   \<and> handle_call demo_env demo_world ''read_pdf_text''
         (missing_file_args\<lparr>arg_chunkSize := Some (3/2), arg_chunked := Some False\<rparr>)
       = Some (Inr \<lparr>content = [''Error: Failed to get PDF page count: PDF file not found: /tmp/missing.pdf''],
                    isError = True\<rparr>, demo_world)"
proof -
  let ?args = "missing_file_args\<lparr>arg_chunkSize := Some (3/2)\<rparr>"
  have h1: "\<not> existsSync demo_env demo_world (arg_filepath ?args)"
    by (simp add: existsSync_def file_at_def storage_name_def demo_env_def demo_world_def
        plain_name_def missing_file_args_def)
  have h2: "arg_chunked ?args = Some True" by (simp add: missing_file_args_def)
  have h3: "(0::number) < with_default (arg_chunkSize ?args) 10" by (simp add: with_default_def)
  have fp: "arg_filepath ?args = ''/tmp/missing.pdf''" by (simp add: missing_file_args_def)
  from chunked_read_failure_not_converted [OF h1 h2 h3] h1 h2 h3 fp show ?thesis by simp
qed

end
